theory Spec2Isabelle
  imports Main
begin

section \<open>Navigation index (data/toc.ts)\<close>

text \<open>
  The catalog of the documentation site: \<open>TocEntry\<close>, \<open>TocCategory\<close> and the
  constant \<open>toc\<close> are the TypeScript interfaces and the exported array of the same names.
  \<open>FlatEntry extends TocEntry\<close> is a record extension. The fields of \<open>TocCategory\<close> and
  \<open>NavEntry\<close> carry a prefix, since \<open>title\<close>, \<open>category\<close> and \<open>href\<close> are already
  fields of the entry records; the optional \<open>category?\<close> of a \<open>NavEntry\<close> is an option.
\<close>

record TocEntry =
  title :: string
  slug :: string
  "file" :: string

record TocCategory =
  cat_title :: string
  items :: "TocEntry list"

record FlatEntry = TocEntry +
  category :: string
  href :: string

record NavEntry =
  nav_title :: string
  nav_category :: "string option"
  nav_href :: string

text \<open>The result of \<open>getNavigation\<close>: an object whose keys \<open>prev\<close> and \<open>next\<close> are
  optional; a key that is missing and a key holding \<open>undefined\<close> both read as \<open>None\<close>.\<close>

record Navigation =
  prev :: "NavEntry option"
  "next" :: "NavEntry option"

definition toc :: "TocCategory list" where
  "toc =
   [ \<lparr> cat_title = ''Getting Started'', items =
       [ \<lparr> title = ''Introduction'', slug = '''', file = ''index.md'' \<rparr>,
         \<lparr> title = ''Installation'', slug = ''installation'', file = ''installation.md'' \<rparr>,
         \<lparr> title = ''Quick Start'', slug = ''quickstart'', file = ''quickstart.md'' \<rparr> ] \<rparr>,
     \<lparr> cat_title = ''Core Concepts'', items =
       [ \<lparr> title = ''Routing'', slug = ''concepts/routing'', file = ''concepts/routing.md'' \<rparr>,
         \<lparr> title = ''Context'', slug = ''concepts/context'', file = ''concepts/context.md'' \<rparr>,
         \<lparr> title = ''Middleware'', slug = ''concepts/middleware'',
           file = ''concepts/middleware.md'' \<rparr>,
         \<lparr> title = ''Schema Validation'', slug = ''concepts/schema'',
           file = ''concepts/schema.md'' \<rparr> ] \<rparr>,
     \<lparr> cat_title = ''Advanced'', items =
       [ \<lparr> title = ''Plugins'', slug = ''advanced/plugins'', file = ''advanced/plugins.md'' \<rparr>,
         \<lparr> title = ''Mounting Routers'', slug = ''advanced/mounting'',
           file = ''advanced/mounting.md'' \<rparr>,
         \<lparr> title = ''State Management'', slug = ''advanced/state'',
           file = ''advanced/state.md'' \<rparr>,
         \<lparr> title = ''Workers'', slug = ''advanced/workers'', file = ''advanced/workers.md'' \<rparr> ] \<rparr>,
     \<lparr> cat_title = ''API Reference'', items =
       [ \<lparr> title = ''Kage Class'', slug = ''api/kage'', file = ''api/kage.md'' \<rparr>,
         \<lparr> title = ''Context'', slug = ''api/context'', file = ''api/context.md'' \<rparr>,
         \<lparr> title = ''Types'', slug = ''api/types'', file = ''api/types.md'' \<rparr> ] \<rparr> ]"

text \<open>The object pushed by the inner loop of \<open>flattenToc\<close>: the item's own fields, the
  title of its category, and the address. An empty string is falsy in JavaScript, so
  \<open>item.slug ? `/docs/${item.slug}` : "/docs"\<close> tests the slug for emptiness.\<close>

definition flat_entry :: "TocCategory \<Rightarrow> TocEntry \<Rightarrow> FlatEntry" where
  "flat_entry c item =
     \<lparr> title = title item, slug = slug item, file = file item,
       category = cat_title c,
       href = (if slug item \<noteq> [] then ''/docs/'' @ slug item else ''/docs'') \<rparr>"

text \<open>The two nested \<open>for ... of\<close> loops of \<open>flattenToc\<close>, each pushing onto the end of
  the array \<open>flat\<close>; the catalog the source reads from the module constant is an argument.\<close>

fun push_items :: "TocCategory \<Rightarrow> TocEntry list \<Rightarrow> FlatEntry list \<Rightarrow> FlatEntry list" where
  "push_items c [] flat = flat"
| "push_items c (item # rest) flat = push_items c rest (flat @ [flat_entry c item])"

fun push_categories :: "TocCategory list \<Rightarrow> FlatEntry list \<Rightarrow> FlatEntry list" where
  "push_categories [] flat = flat"
| "push_categories (c # rest) flat = push_categories rest (push_items c (items c) flat)"

definition flattenToc :: "TocCategory list \<Rightarrow> FlatEntry list" where
  "flattenToc cat = push_categories cat []"

definition flatToc :: "FlatEntry list" where
  "flatToc = flattenToc toc"

text \<open>\<open>Array.prototype.find\<close> is \<open>List.find\<close>; \<open>findIndex\<close> gives the index of the first
  element that satisfies the predicate, or \<open>-1\<close>; an index outside the array reads
  \<open>undefined\<close>, also the index \<open>-1\<close>.\<close>

fun findIndex :: "('a \<Rightarrow> bool) \<Rightarrow> 'a list \<Rightarrow> int" where
  "findIndex P [] = - 1"
| "findIndex P (x # xs) =
     (if P x then 0 else (let r = findIndex P xs in if r = - 1 then - 1 else r + 1))"

definition at_index :: "'a list \<Rightarrow> int \<Rightarrow> 'a option" where
  "at_index xs i = (if 0 \<le> i \<and> i < int (length xs) then Some (xs ! nat i) else None)"

definition getEntryBySlug :: "FlatEntry list \<Rightarrow> string \<Rightarrow> FlatEntry option" where
  "getEntryBySlug flat s = find (\<lambda>entry. slug entry = s) flat"

definition nav_entry :: "FlatEntry \<Rightarrow> NavEntry" where
  "nav_entry e = \<lparr> nav_title = title e, nav_category = Some (category e), nav_href = href e \<rparr>"

text \<open>\<open>getNavigation\<close>: an object is truthy, so \<open>prev ? {...} : undefined\<close> maps the entry
  read at \<open>idx - 1\<close>, when there is one, to its \<open>NavEntry\<close>.\<close>

definition getNavigation :: "FlatEntry list \<Rightarrow> string \<Rightarrow> Navigation" where
  "getNavigation flat s =
     (let idx = findIndex (\<lambda>entry. slug entry = s) flat in
      if idx = - 1 then \<lparr> prev = None, next = None \<rparr>
      else
        (let p = at_index flat (idx - 1);
             n = at_index flat (idx + 1)
         in \<lparr> prev = map_option nav_entry p, next = map_option nav_entry n \<rparr>))"

text \<open>The index at which the entries of category \<open>j\<close> start in the flattened sequence.\<close>

definition offset :: "TocCategory list \<Rightarrow> nat \<Rightarrow> nat" where
  "offset cat j = sum_list (map (\<lambda>c. length (items c)) (take j cat))"

section \<open>Regular expressions (the fragment of ECMAScript that the source uses)\<close>

text \<open>
  \<open>parseFrontmatter\<close> is written with the regular expression literal
  \<^verbatim>\<open>/^---\r?\n([\s\S]*?)\r?\n---\r?\n([\s\S]*)$/\<close>. Its constructs are: the assertions
  \<^verbatim>\<open>^\<close> and \<^verbatim>\<open>$\<close> (no \<^verbatim>\<open>m\<close> flag: start and end of the input), a literal
  character, the class \<^verbatim>\<open>[\s\S]\<close> (any character), the greedy option \<^verbatim>\<open>?\<close>, the lazy
  star \<^verbatim>\<open>*?\<close> and the greedy star \<^verbatim>\<open>*\<close> over a one-character atom, and numbered
  capturing groups. A pattern is the list of its terms in sequence.
\<close>

datatype atom = Lit char | AnyChar

datatype rx =
    Bol
  | Eol
  | Ch atom
  | Opt rx
  | LazyStar atom
  | GreedyStar atom
  | Group nat "rx list"

text \<open>A configuration of the backtracking matcher: how many characters of the input lie
  before the current position, the input from the current position on, and the captures
  made so far (latest first).\<close>

type_synonym cfg = "nat \<times> string \<times> (nat \<times> string) list"

fun atom_ok :: "atom \<Rightarrow> char \<Rightarrow> bool" where
  "atom_ok (Lit c) x = (x = c)"
| "atom_ok AnyChar x = True"

text \<open>The positions a star can stop at, in the order in which backtracking tries them:
  the lazy star tries the fewest repetitions first, the greedy star the most.\<close>

fun lazy_star :: "atom \<Rightarrow> nat \<Rightarrow> string \<Rightarrow> (nat \<times> string) list" where
  "lazy_star a p [] = [(p, [])]"
| "lazy_star a p (x # xs) = (p, x # xs) # (if atom_ok a x then lazy_star a (Suc p) xs else [])"

fun greedy_star :: "atom \<Rightarrow> nat \<Rightarrow> string \<Rightarrow> (nat \<times> string) list" where
  "greedy_star a p [] = [(p, [])]"
| "greedy_star a p (x # xs) =
     (if atom_ok a x then greedy_star a (Suc p) xs else []) @ [(p, x # xs)]"

text \<open>All the ways a term (\<open>ms\<close>) or a sequence of terms (\<open>mss\<close>) matches from a
  configuration, in backtracking order: the head of the list is the match that the
  engine reports. A group records the text it consumed under its number.\<close>

fun ms :: "rx \<Rightarrow> cfg \<Rightarrow> cfg list" and mss :: "rx list \<Rightarrow> cfg \<Rightarrow> cfg list" where
  "ms Bol (p, r, c) = (if p = 0 then [(p, r, c)] else [])"
| "ms Eol (p, r, c) = (if r = [] then [(p, r, c)] else [])"
| "ms (Ch a) (p, r, c) =
     (case r of [] \<Rightarrow> [] | x # xs \<Rightarrow> if atom_ok a x then [(Suc p, xs, c)] else [])"
| "ms (Opt e) cf = ms e cf @ [cf]"
| "ms (LazyStar a) (p, r, c) = map (\<lambda>(p', r'). (p', r', c)) (lazy_star a p r)"
| "ms (GreedyStar a) (p, r, c) = map (\<lambda>(p', r'). (p', r', c)) (greedy_star a p r)"
| "ms (Group n es) (p, r, c) =
     map (\<lambda>(p', r', c'). (p', r', (n, take (p' - p) r) # c')) (mss es (p, r, c))"
| "mss [] cf = [cf]"
| "mss (e # es) cf = concat (map (mss es) (ms e cf))"

text \<open>\<open>String.prototype.match\<close> with a pattern without the \<^verbatim>\<open>g\<close> flag: the first match,
  tried from start position 0, then 1, and so on; \<open>null\<close> when no start position matches.
  The result maps a group number to the text the group captured.\<close>

fun exec_from :: "rx list \<Rightarrow> nat \<Rightarrow> string \<Rightarrow> cfg option" where
  "exec_from es p [] = (case mss es (p, [], []) of cf # _ \<Rightarrow> Some cf | [] \<Rightarrow> None)"
| "exec_from es p (x # xs) =
     (case mss es (p, x # xs, []) of cf # _ \<Rightarrow> Some cf | [] \<Rightarrow> exec_from es (Suc p) xs)"

definition js_match :: "string \<Rightarrow> rx list \<Rightarrow> (nat \<Rightarrow> string option) option" where
  "js_match s es = map_option (\<lambda>(p, r, c). map_of c) (exec_from es 0 s)"

abbreviation LF :: char where "LF \<equiv> CHR 0x0A"
abbreviation CR :: char where "CR \<equiv> CHR 0x0D"

section \<open>Metadata header (utils/markdown.ts, parseFrontmatter)\<close>

definition frontmatterRegex :: "rx list" where
  "frontmatterRegex =
     [ Bol, Ch (Lit CHR ''-''), Ch (Lit CHR ''-''), Ch (Lit CHR ''-''),
       Opt (Ch (Lit CR)), Ch (Lit LF),
       Group 1 [LazyStar AnyChar],
       Opt (Ch (Lit CR)), Ch (Lit LF),
       Ch (Lit CHR ''-''), Ch (Lit CHR ''-''), Ch (Lit CHR ''-''),
       Opt (Ch (Lit CR)), Ch (Lit LF),
       Group 2 [GreedyStar AnyChar], Eol ]"

text \<open>What \<open>parseYaml\<close> of \<open>@std/yaml\<close> returns: a YAML value (\<open>YNull\<close> for \<open>null\<close> and
  \<open>undefined\<close>, which \<open>??\<close> treats alike); it raises on a block that is not YAML. The
  parser is a library and is a parameter of the model, of type \<open>string \<Rightarrow> error + yaml\<close>.\<close>

datatype yaml =
    YNull
  | YBool bool
  | YNum int
  | YStr string
  | YSeq "yaml list"
  | YMap "(string \<times> yaml) list"

datatype error = YamlError | HighlightError

record Frontmatter =
  data :: yaml
  content :: string

text \<open>\<open>parseFrontmatter\<close>. The two groups of the pattern take part in every match, so
  \<open>match[1]\<close> and \<open>match[2]\<close> are strings (lemma \<open>frontmatter_groups\<close>); the last case
  below is never taken.\<close>

definition parseFrontmatter :: "(string \<Rightarrow> error + yaml) \<Rightarrow> string \<Rightarrow> Frontmatter" where
  "parseFrontmatter parseYaml content' =
     (case js_match content' frontmatterRegex of
        None \<Rightarrow> \<lparr> data = YMap [], content = content' \<rparr>
      | Some match \<Rightarrow>
          (case (match 1, match 2) of
             (Some yamlStr, Some markdown) \<Rightarrow>
               (case parseYaml yamlStr of
                  Inr d \<Rightarrow> \<lparr> data = (if d = YNull then YMap [] else d), content = markdown \<rparr>
                | Inl _ \<Rightarrow> \<lparr> data = YMap [], content = markdown \<rparr>)
           | _ \<Rightarrow> \<lparr> data = YMap [], content = content' \<rparr>))"

text \<open>The shape of a header, for the statements below: an end of line is a line feed
  with an optional carriage return before it; \<open>closing r\<close> is the text after a closing
  delimiter line \<^verbatim>\<open>\r?\n---\r?\n\<close> at the start of \<open>r\<close>; \<open>find_closing r\<close> splits \<open>r\<close> at
  the first position where a closing delimiter line starts; \<open>header_split s\<close> is the
  block and the body of a text that starts with an opening delimiter line.\<close>

fun strip_eol :: "string \<Rightarrow> string option" where
  "strip_eol (a # b # r) =
     (if a = CR \<and> b = LF then Some r else if a = LF then Some (b # r) else None)"
| "strip_eol [a] = (if a = LF then Some [] else None)"
| "strip_eol [] = None"

fun strip_dashes :: "string \<Rightarrow> string option" where
  "strip_dashes (a # b # c # r) =
     (if a = CHR ''-'' \<and> b = CHR ''-'' \<and> c = CHR ''-'' then Some r else None)"
| "strip_dashes _ = None"

definition closing :: "string \<Rightarrow> string option" where
  "closing r = Option.bind (Option.bind (strip_eol r) strip_dashes) strip_eol"

fun find_closing :: "string \<Rightarrow> (string \<times> string) option" where
  "find_closing [] = None"
| "find_closing (x # xs) =
     (case closing (x # xs) of
        Some b \<Rightarrow> Some ([], b)
      | None \<Rightarrow> map_option (\<lambda>(y, b). (x # y, b)) (find_closing xs))"

definition header_split :: "string \<Rightarrow> (string \<times> string) option" where
  "header_split s = Option.bind (Option.bind (strip_dashes s) strip_eol) find_closing"

text \<open>The first element of a list of matches, and the part of the pattern from the
  closing delimiter line on (auxiliary, for the proofs).\<close>

definition first_of :: "'a list \<Rightarrow> 'a option" where
  "first_of xs = (case xs of [] \<Rightarrow> None | x # _ \<Rightarrow> Some x)"

definition closing_tail :: "rx list" where
  "closing_tail =
     [ Opt (Ch (Lit CR)), Ch (Lit LF),
       Ch (Lit CHR ''-''), Ch (Lit CHR ''-''), Ch (Lit CHR ''-''),
       Opt (Ch (Lit CR)), Ch (Lit LF),
       Group 2 [GreedyStar AnyChar], Eol ]"

text \<open>\<open>occurs pat s\<close>: the text \<open>pat\<close> occurs somewhere in \<open>s\<close>.\<close>

fun occurs :: "string \<Rightarrow> string \<Rightarrow> bool" where
  "occurs pat [] = (pat = [])"
| "occurs pat (x # xs) = (take (length pat) (x # xs) = pat \<or> occurs pat xs)"

definition eol :: "string \<Rightarrow> bool" where
  "eol e = (e = [LF] \<or> e = [CR, LF])"

text \<open>A stand-in for the YAML parser where a statement needs a concrete one. It reads the
  empty block as \<open>null\<close>, and a block that is one line \<^verbatim>\<open>title: X\<close>, with \<open>X\<close> made of
  letters and spaces, a letter first and last, as the mapping from \<open>title\<close> to the value
  of the plain scalar \<open>X\<close>: the boolean for \<^verbatim>\<open>true\<close> and \<^verbatim>\<open>false\<close>, \<open>null\<close> for
  \<^verbatim>\<open>null\<close> (each in its three spellings), the string \<open>X\<close> for any other \<open>X\<close>. It raises
  on every other block, as the library does on \<^verbatim>\<open>title: [\<close>, a flow sequence that is
  not closed.\<close>

definition plain_char :: "char \<Rightarrow> bool" where
  "plain_char ch = (ch \<in> set ''ABCDEFGHIJKLMNOPQRSTUVWXYZabcdefghijklmnopqrstuvwxyz '')"

definition yaml_scalar :: "string \<Rightarrow> yaml" where
  "yaml_scalar v =
     (if v \<in> set [''true'', ''True'', ''TRUE''] then YBool True
      else if v \<in> set [''false'', ''False'', ''FALSE''] then YBool False
      else if v \<in> set [''null'', ''Null'', ''NULL''] then YNull
      else YStr v)"

definition title_yaml :: "string \<Rightarrow> error + yaml" where
  "title_yaml y =
     (if y = [] then Inr YNull
      else if take 7 y = ''title: '' \<and> drop 7 y \<noteq> [] \<and> list_all plain_char (drop 7 y)
              \<and> take 1 (drop 7 y) \<noteq> '' '' \<and> last y \<noteq> CHR '' ''
      then Inr (YMap [(''title'', yaml_scalar (drop 7 y))])
      else Inl YamlError)"

section \<open>Syntax highlighting (utils/shiki.ts)\<close>

text \<open>
  The packages the pipeline calls (\<open>shiki\<close>, \<open>marked\<close>, \<open>marked-gfm-heading-id\<close>,
  \<open>@std/yaml\<close>) are not part of the repository. What they compute is a parameter of the
  model, gathered in the record \<open>Libraries\<close>; how the pipeline reaches them (which
  arguments it passes, what it does with a result or an exception, which state it keeps)
  is modelled from the source. A call that may raise returns \<open>error + 'a\<close>.

  A \<open>Highlighter\<close> is used through its method \<open>codeToHtml(code, {lang, theme})\<close> only and
  is modelled as that method. A token of \<open>marked\<close> is a code block (its text, its language
  tag, and the property \<open>highlighted\<close> that the \<open>walkTokens\<close> hook of the source adds), a
  heading (its depth, its inline markup and its plain text), or any other token with the
  tokens nested in it.
\<close>

type_synonym Highlighter = "string \<Rightarrow> string \<Rightarrow> string \<Rightarrow> error + string"

datatype token =
    Code string "string option" "string option"
  | HeadingTok nat string string
  | Other string "token list"

record Libraries =
  parseYaml :: "string \<Rightarrow> error + yaml"
  createHighlighter :: "string list \<Rightarrow> string list \<Rightarrow> error + Highlighter"
  lexer :: "string \<Rightarrow> token list"
  render_other :: "string \<Rightarrow> string \<Rightarrow> string"
  slug_text :: "string \<Rightarrow> string"

text \<open>An entry of the heading list that \<open>marked-gfm-heading-id\<close> keeps, and the
  \<open>Heading\<close> of the source (fields \<open>id\<close>, \<open>text\<close>, \<open>level\<close>; prefixed here, as \<open>id\<close> is
  the identity function of HOL).\<close>

record HeadingEntry =
  g_level :: nat
  g_text :: string
  g_id :: string
  g_raw :: string

record Heading =
  h_id :: string
  h_text :: string
  h_level :: nat

record ParsedMarkdown =
  html :: string
  headings :: "Heading list"
  frontmatter :: yaml

text \<open>The module-level state: the variable \<open>highlighter\<close> of \<open>shiki.ts\<close> (\<open>null\<close> until the
  first use), and the heading list and the slug occurrences that \<open>marked-gfm-heading-id\<close>
  keeps in its module.\<close>

record State =
  highlighter :: "Highlighter option"
  heading_list :: "HeadingEntry list"
  occurrences :: "(string \<times> nat) list"

definition init_state :: State where
  "init_state = \<lparr> highlighter = None, heading_list = [], occurrences = [] \<rparr>"

definition loadedLangs :: "string list" where
  "loadedLangs = [''typescript'', ''javascript'', ''json'', ''bash'', ''tsx'', ''jsx'']"

definition getHighlighter :: "Libraries \<Rightarrow> State \<Rightarrow> (error + Highlighter) \<times> State" where
  "getHighlighter L st =
     (case highlighter st of
        Some hl \<Rightarrow> (Inr hl, st)
      | None \<Rightarrow>
          (case createHighlighter L [''kage''] loadedLangs of
             Inl e \<Rightarrow> (Inl e, st)
           | Inr hl \<Rightarrow> (Inr hl, st\<lparr> highlighter := Some hl \<rparr>)))"

definition validLangs :: "string list" where
  "validLangs =
     [''typescript'', ''javascript'', ''json'', ''bash'', ''tsx'', ''jsx'', ''ts'', ''js'']"

definition highlight :: "Libraries \<Rightarrow> State \<Rightarrow> string \<Rightarrow> string \<Rightarrow> (error + string) \<times> State" where
  "highlight L st code lang =
     (case getHighlighter L st of
        (Inl e, st') \<Rightarrow> (Inl e, st')
      | (Inr hl, st') \<Rightarrow>
          (let language = (if lang \<in> set validLangs then lang else ''typescript'')
           in (hl code
                 (if language = ''ts'' then ''typescript''
                  else if language = ''js'' then ''javascript''
                  else language)
                 ''kage'',
               st')))"

section \<open>Rendering (utils/markdown.ts)\<close>

text \<open>The \<open>walkTokens\<close> hook of the source: on a code token it awaits \<open>highlight\<close> with the
  language tag, or \<open>typescript\<close> when the tag is missing or empty (\<open>token.lang ||
  "typescript"\<close>), and stores the result in the token; there is no \<open>try\<close> around the call.
  It leaves every other token as it is.\<close>

fun walkTokens :: "Libraries \<Rightarrow> State \<Rightarrow> token \<Rightarrow> (error + token) \<times> State" where
  "walkTokens L st (Code text' lang highlighted) =
     (let language = (case lang of None \<Rightarrow> ''typescript''
                      | Some l \<Rightarrow> if l \<noteq> [] then l else ''typescript'')
      in case highlight L st text' language of
           (Inl e, st') \<Rightarrow> (Inl e, st')
         | (Inr h, st') \<Rightarrow> (Inr (Code text' lang (Some h)), st'))"
| "walkTokens L st tok = (Inr tok, st)"

text \<open>The \<open>code\<close> renderer of the source: a non-empty string is truthy.\<close>

definition render_code :: "string \<Rightarrow> string option \<Rightarrow> string" where
  "render_code text' highlighted =
     (case highlighted of
        Some h \<Rightarrow>
          (if h \<noteq> [] then ''<div class=\"shiki-wrapper my-6\">'' @ h @ ''</div>''
           else ''<pre><code>'' @ text' @ ''</code></pre>'')
      | None \<Rightarrow> ''<pre><code>'' @ text' @ ''</code></pre>'')"

text \<open>Decimal digits of a number, as template literals print it.\<close>

fun string_of_nat :: "nat \<Rightarrow> string" where
  "string_of_nat n =
     (if n < 10 then [char_of (48 + n)]
      else string_of_nat (n div 10) @ [char_of (48 + n mod 10)])"

declare string_of_nat.simps [simp del]

text \<open>
  Modelled from the spec: the heading identifiers of \<open>marked-gfm-heading-id\<close>, which
  \<open>markdown.ts\<close> installs with \<open>marked.use(gfmHeadingId())\<close> and reads with
  \<open>getHeadingList()\<close>; the package is not under src/. The spec asks for a ``deterministic,
  collision-resistant heading-anchor generation from heading text'' in which ``repeated
  identical headings are disambiguated''. The package does it as follows, and so does the
  model: the identifier is the slug of the heading text if no heading of the document was
  given it yet; otherwise a counter kept for that slug is increased and appended after a
  hyphen, until the result is an identifier that was not given yet (\<open>next_free\<close>). \<open>occ\<close>
  maps every identifier given so far to its counter, the latest entry of a key first; the
  text-to-slug function (lower case, spaces to hyphens, punctuation dropped) is the
  parameter \<open>slug_text\<close>.
\<close>

function next_free ::
  "(string \<times> nat) list \<Rightarrow> string \<Rightarrow> nat \<Rightarrow> string \<times> (string \<times> nat) list" where
  "next_free occ originalSlug k =
     (let n = k + 1;
          occ' = (originalSlug, n) # occ;
          result = originalSlug @ ''-'' @ string_of_nat n
      in case map_of occ' result of
           None \<Rightarrow> (result, (result, 0) # occ')
         | Some _ \<Rightarrow> next_free occ' originalSlug n)"
  by pat_completeness auto

text \<open>The loop ends: the numbers written in decimal are pairwise different, so only
  finitely many of the candidates can be among the identifiers given so far.\<close>

lemma string_of_nat_not_Nil: "string_of_nat n \<noteq> []"
  by (subst string_of_nat.simps) simp

lemma string_of_nat_not_Nil': "[] \<noteq> string_of_nat n"
  by (subst string_of_nat.simps) simp

lemma last_string_of_nat: "last (string_of_nat n) = char_of (48 + n mod 10)"
  by (subst string_of_nat.simps) simp

lemma butlast_string_of_nat:
  "butlast (string_of_nat n) = (if n < 10 then [] else string_of_nat (n div 10))"
  by (subst string_of_nat.simps) simp

lemma string_of_nat_inj: "string_of_nat n = string_of_nat m \<Longrightarrow> n = m"
proof (induction n arbitrary: m rule: less_induct)
  case (less n)
  from less.prems have "last (string_of_nat n) = last (string_of_nat m)" by simp
  then have "n mod 10 = m mod 10"
    by (simp add: last_string_of_nat)
  moreover from less.prems have b: "butlast (string_of_nat n) = butlast (string_of_nat m)"
    by simp
  have "n div 10 = m div 10"
  proof (cases "n < 10")
    case True
    with b have "m < 10"
      by (auto simp: butlast_string_of_nat string_of_nat_not_Nil string_of_nat_not_Nil' split: if_splits)
    with True show ?thesis by simp
  next
    case False
    with b have m: "\<not> m < 10"
      by (auto simp: butlast_string_of_nat string_of_nat_not_Nil string_of_nat_not_Nil' split: if_splits)
    with b False have "string_of_nat (n div 10) = string_of_nat (m div 10)"
      by (simp add: butlast_string_of_nat)
    moreover from False have "n div 10 < n" by simp
    ultimately show ?thesis by (rule less.IH [rotated])
  qed
  ultimately show ?case by (metis div_mult_mod_eq)
qed

lemma finite_candidates: "finite {m. s @ ''-'' @ string_of_nat m \<in> set (map fst occ)}"
proof -
  have "inj (\<lambda>m. s @ ''-'' @ string_of_nat m)"
    by (rule injI) (simp add: string_of_nat_inj)
  then have "finite ((\<lambda>m. s @ ''-'' @ string_of_nat m) -` set (map fst occ))"
    by (intro finite_vimageI) simp_all
  then show ?thesis by (simp add: vimage_def)
qed

termination next_free
proof (relation "measure (\<lambda>(occ, s, k). card {m. k < m \<and> s @ ''-'' @ string_of_nat m \<in> set (map fst occ)})")
  show "wf (measure (\<lambda>(occ, s, k). card {m. k < m \<and> s @ ''-'' @ string_of_nat m \<in> set (map fst occ)}))"
    by simp
next
  fix occ :: "(string \<times> nat) list" and originalSlug :: string and k n :: nat
    and occ' result x2
  assume n: "n = k + 1" and occ': "occ' = (originalSlug, n) # occ"
    and result: "result = originalSlug @ ''-'' @ string_of_nat n"
    and found: "map_of occ' result = Some x2"
  let ?c = "\<lambda>m. originalSlug @ ''-'' @ string_of_nat m"
  from found have "result \<in> set (map fst occ')"
    by (metis map_of_eq_None_iff option.distinct(1) set_map)
  moreover have "result \<noteq> originalSlug" by (simp add: result)
  ultimately have mem: "?c n \<in> set (map fst occ)" by (simp add: occ' result)
  have neq: "\<And>m. ?c m \<noteq> originalSlug" by simp
  have sub: "{m. n < m \<and> ?c m \<in> set (map fst occ')} \<subset> {m. k < m \<and> ?c m \<in> set (map fst occ)}"
  proof
    show "{m. n < m \<and> ?c m \<in> set (map fst occ')} \<subseteq> {m. k < m \<and> ?c m \<in> set (map fst occ)}"
      using n by (auto simp: occ')
    from mem n show "{m. n < m \<and> ?c m \<in> set (map fst occ')} \<noteq> {m. k < m \<and> ?c m \<in> set (map fst occ)}"
      by auto
  qed
  have "finite {m. k < m \<and> ?c m \<in> set (map fst occ)}"
    by (rule finite_subset [OF _ finite_candidates [of originalSlug occ]]) auto
  from psubset_card_mono [OF this sub]
  show "((occ', originalSlug, n), (occ, originalSlug, k))
     \<in> measure (\<lambda>(occ, s, k). card {m. k < m \<and> s @ ''-'' @ string_of_nat m \<in> set (map fst occ)})"
    by simp
qed

declare next_free.simps [simp del]

definition slugger_slug :: "(string \<times> nat) list \<Rightarrow> string \<Rightarrow> string \<times> (string \<times> nat) list" where
  "slugger_slug occ originalSlug =
     (case map_of occ originalSlug of
        None \<Rightarrow> (originalSlug, (originalSlug, 0) # occ)
      | Some k \<Rightarrow> next_free occ originalSlug k)"

text \<open>
  Modelled from the spec: the heading list of \<open>marked-gfm-heading-id\<close> (not under src/),
  the ``ordered list of generated headings (identifier, text, heading level) in document
  order'' that is collected ``as a side channel alongside the markup'', fresh for every
  parse. \<open>resetHeadings\<close> is what the \<open>preprocess\<close> hook of the package runs at the start
  of every \<open>marked.parse\<close>; its \<open>heading\<close> renderer gives the heading its identifier,
  appends it to the heading list and returns the markup of the heading.
\<close>

definition resetHeadings :: "State \<Rightarrow> State" where
  "resetHeadings st = st\<lparr> heading_list := [], occurrences := [] \<rparr>"

definition render_heading :: "Libraries \<Rightarrow> State \<Rightarrow> nat \<Rightarrow> string \<Rightarrow> string \<Rightarrow> string \<times> State" where
  "render_heading L st depth text' raw =
     (let (id', occ') = slugger_slug (occurrences st) (slug_text L raw);
          heading = \<lparr> g_level = depth, g_text = text', g_id = id', g_raw = raw \<rparr>
      in (''<h'' @ string_of_nat depth @ '' id=\"'' @ id' @ ''\">'' @ text'
            @ ''</h'' @ string_of_nat depth @ ''>'' @ [LF],
          st\<lparr> heading_list := heading_list st @ [heading], occurrences := occ' \<rparr>))"

text \<open>\<open>marked.parse\<close> (the package is not under src/) with the options of the source:
  \<open>async: true\<close>, the hook, the renderer, the heading extension; \<open>silent\<close> is off, so an
  exception of the hook rejects the promise that \<open>parse\<close> returns. The hook is called on every token, a token before
  the tokens nested in it; the calls are modelled one after the other, in document order
  (the package starts them together and awaits them all; they share nothing but the
  variable \<open>highlighter\<close>). Then the tokens are rendered in document order, the output
  of a token placed around the output of the tokens nested in it.\<close>

fun walk :: "Libraries \<Rightarrow> State \<Rightarrow> token \<Rightarrow> (error + token) \<times> State"
  and walk_all :: "Libraries \<Rightarrow> State \<Rightarrow> token list \<Rightarrow> (error + token list) \<times> State" where
  "walk L st (Other p cs) =
     (case walkTokens L st (Other p cs) of
        (Inl e, st') \<Rightarrow> (Inl e, st')
      | (Inr _, st') \<Rightarrow>
          (case walk_all L st' cs of
             (Inl e, st'') \<Rightarrow> (Inl e, st'')
           | (Inr cs', st'') \<Rightarrow> (Inr (Other p cs'), st'')))"
| "walk L st (Code text' lang highlighted) = walkTokens L st (Code text' lang highlighted)"
| "walk L st (HeadingTok depth text' raw) = walkTokens L st (HeadingTok depth text' raw)"
| "walk_all L st [] = (Inr [], st)"
| "walk_all L st (tok # toks) =
     (case walk L st tok of
        (Inl e, st') \<Rightarrow> (Inl e, st')
      | (Inr tok', st') \<Rightarrow>
          (case walk_all L st' toks of
             (Inl e, st'') \<Rightarrow> (Inl e, st'')
           | (Inr toks', st'') \<Rightarrow> (Inr (tok' # toks'), st'')))"

fun render :: "Libraries \<Rightarrow> State \<Rightarrow> token \<Rightarrow> string \<times> State"
  and render_all :: "Libraries \<Rightarrow> State \<Rightarrow> token list \<Rightarrow> string \<times> State" where
  "render L st (Code text' lang highlighted) = (render_code text' highlighted, st)"
| "render L st (HeadingTok depth text' raw) = render_heading L st depth text' raw"
| "render L st (Other p cs) =
     (let (inner, st') = render_all L st cs in (render_other L p inner, st'))"
| "render_all L st [] = ([], st)"
| "render_all L st (tok # toks) =
     (let (out1, st') = render L st tok;
          (out2, st'') = render_all L st' toks
      in (out1 @ out2, st''))"

definition parse_tokens :: "Libraries \<Rightarrow> State \<Rightarrow> token list \<Rightarrow> (error + string) \<times> State" where
  "parse_tokens L st tokens =
     (case walk_all L st tokens of
        (Inl e, st') \<Rightarrow> (Inl e, st')
      | (Inr tokens', st') \<Rightarrow>
          (let (out, st'') = render_all L st' tokens' in (Inr out, st'')))"

definition marked_parse :: "Libraries \<Rightarrow> State \<Rightarrow> string \<Rightarrow> (error + string) \<times> State" where
  "marked_parse L st src = parse_tokens L (resetHeadings st) (lexer L src)"

text \<open>\<open>parseMarkdown\<close>: \<open>render_document\<close> is its part after the header is taken off,
  with the metadata and the body as arguments.\<close>

definition render_document ::
  "Libraries \<Rightarrow> State \<Rightarrow> yaml \<Rightarrow> string \<Rightarrow> (error + ParsedMarkdown) \<times> State" where
  "render_document L st meta markdown =
     (case marked_parse L st markdown of
        (Inl e, st') \<Rightarrow> (Inl e, st')
      | (Inr out, st') \<Rightarrow>
          (Inr \<lparr> html = out,
                 headings = map (\<lambda>h. \<lparr> h_id = g_id h, h_text = g_text h, h_level = g_level h \<rparr>)
                              (heading_list st'),
                 frontmatter = meta \<rparr>,
           st'))"

definition parseMarkdown :: "Libraries \<Rightarrow> State \<Rightarrow> string \<Rightarrow> (error + ParsedMarkdown) \<times> State" where
  "parseMarkdown L st content' =
     (let fm = parseFrontmatter (parseYaml L) content'
      in render_document L st (data fm) (content fm))"

text \<open>
  \<open>parseMarkdown\<close> is an \<open>async\<close> function: it runs in stretches, and between two of
  them another call can run (a second call started together with the first, or a request
  that arrives while the first awaits the creation of the highlighter). The stretches,
  each run as a whole: \<open>parse_start\<close>, up to the tokens (the header is taken off, the
  \<open>preprocess\<close> hook resets the heading list, the body is lexed); \<open>parse_walk\<close>, the hook
  on every token; \<open>parse_finish\<close>, the rendering and the reading of the heading list.
  \<open>parseMarkdown\<close> is the three in a row (lemma \<open>parseMarkdown_stretches\<close>).
  \<open>overlapped\<close> runs two calls so that the second starts before the first has rendered.
\<close>

record Pending =
  pending_meta :: yaml
  pending_tokens :: "token list"

definition parse_start :: "Libraries \<Rightarrow> State \<Rightarrow> string \<Rightarrow> Pending \<times> State" where
  "parse_start L st content' =
     (let fm = parseFrontmatter (parseYaml L) content'
      in (\<lparr> pending_meta = data fm, pending_tokens = lexer L (content fm) \<rparr>,
          resetHeadings st))"

definition parse_walk :: "Libraries \<Rightarrow> State \<Rightarrow> Pending \<Rightarrow> (error + Pending) \<times> State" where
  "parse_walk L st p =
     (case walk_all L st (pending_tokens p) of
        (Inl e, st') \<Rightarrow> (Inl e, st')
      | (Inr tokens', st') \<Rightarrow> (Inr (p\<lparr> pending_tokens := tokens' \<rparr>), st'))"

definition parse_finish :: "Libraries \<Rightarrow> State \<Rightarrow> Pending \<Rightarrow> ParsedMarkdown \<times> State" where
  "parse_finish L st p =
     (let (out, st') = render_all L st (pending_tokens p)
      in (\<lparr> html = out,
             headings = map (\<lambda>h. \<lparr> h_id = g_id h, h_text = g_text h, h_level = g_level h \<rparr>)
                          (heading_list st'),
             frontmatter = pending_meta p \<rparr>,
          st'))"

definition finish_if :: "Libraries \<Rightarrow> State \<Rightarrow> error + Pending \<Rightarrow> (error + ParsedMarkdown) \<times> State" where
  "finish_if L st w =
     (case w of
        Inl e \<Rightarrow> (Inl e, st)
      | Inr p \<Rightarrow> (let (r, st') = parse_finish L st p in (Inr r, st')))"


section \<open>Notions used in the statements about the pipeline\<close>

text \<open>The language that the hook passes to \<open>highlight\<close> for a tag; the code blocks of a
  token and of a token list, in document order, each with its text and its tag; the text
  passed to \<open>marked\<close>; the markup of a successful call.\<close>

definition language_of :: "string option \<Rightarrow> string" where
  "language_of lang = (case lang of None \<Rightarrow> ''typescript''
                       | Some l \<Rightarrow> if l \<noteq> [] then l else ''typescript'')"

fun code_blocks :: "token \<Rightarrow> (string \<times> string option) list"
  and code_blocks_all :: "token list \<Rightarrow> (string \<times> string option) list" where
  "code_blocks (Code text' lang highlighted) = [(text', lang)]"
| "code_blocks (HeadingTok depth text' raw) = []"
| "code_blocks (Other p cs) = code_blocks_all cs"
| "code_blocks_all [] = []"
| "code_blocks_all (tok # toks) = code_blocks tok @ code_blocks_all toks"

definition body_of :: "Libraries \<Rightarrow> string \<Rightarrow> string" where
  "body_of L doc = content (parseFrontmatter (parseYaml L) doc)"

definition markup :: "error + string \<Rightarrow> string" where
  "markup r = (case r of Inr h \<Rightarrow> h | Inl e \<Rightarrow> [])"

text \<open>A token with the property \<open>highlighted\<close> of every code block set by \<open>f\<close>, and a
  token with every language tag outside \<open>validLangs\<close> replaced by \<open>typescript\<close>.\<close>

fun annotate :: "(string \<Rightarrow> string option \<Rightarrow> string) \<Rightarrow> token \<Rightarrow> token" where
  "annotate f (Code text' lang highlighted) = Code text' lang (Some (f text' lang))"
| "annotate f (HeadingTok depth text' raw) = HeadingTok depth text' raw"
| "annotate f (Other p cs) = Other p (map (annotate f) cs)"

fun retag :: "token \<Rightarrow> token" where
  "retag (Code text' lang highlighted) =
     Code text' (if language_of lang \<in> set validLangs then lang else Some ''typescript'')
       highlighted"
| "retag (HeadingTok depth text' raw) = HeadingTok depth text' raw"
| "retag (Other p cs) = Other p (map retag cs)"

text \<open>The hook and the walk over the tokens with the highlighter, or the exception of its
  creation, given (auxiliary, for the proofs).\<close>

definition highlight_with :: "error + Highlighter \<Rightarrow> string \<Rightarrow> string \<Rightarrow> error + string" where
  "highlight_with G code lang =
     (case G of
        Inl e \<Rightarrow> Inl e
      | Inr hl \<Rightarrow>
          (let language = (if lang \<in> set validLangs then lang else ''typescript'')
           in hl code
                (if language = ''ts'' then ''typescript''
                 else if language = ''js'' then ''javascript''
                 else language)
                ''kage''))"

fun pure_walk :: "error + Highlighter \<Rightarrow> token \<Rightarrow> error + token"
  and pure_walk_all :: "error + Highlighter \<Rightarrow> token list \<Rightarrow> error + token list" where
  "pure_walk G (Code text' lang highlighted) =
     (case highlight_with G text' (language_of lang) of
        Inl e \<Rightarrow> Inl e
      | Inr h \<Rightarrow> Inr (Code text' lang (Some h)))"
| "pure_walk G (HeadingTok depth text' raw) = Inr (HeadingTok depth text' raw)"
| "pure_walk G (Other p cs) =
     (case pure_walk_all G cs of Inl e \<Rightarrow> Inl e | Inr cs' \<Rightarrow> Inr (Other p cs'))"
| "pure_walk_all G [] = Inr []"
| "pure_walk_all G (tok # toks) =
     (case pure_walk G tok of
        Inl e \<Rightarrow> Inl e
      | Inr tok' \<Rightarrow>
          (case pure_walk_all G toks of Inl e \<Rightarrow> Inl e | Inr toks' \<Rightarrow> Inr (tok' # toks')))"

text \<open>Relations between states (auxiliary, for the proofs): \<open>after L st st'\<close> when
  \<open>st'\<close> is \<open>st\<close>, possibly with the highlighter created; \<open>same_headings\<close> when two
  states agree on the heading list and the slug occurrences; \<open>ids_fresh\<close> when the
  identifiers in the heading list are pairwise distinct and all recorded in the slug
  occurrences.\<close>

definition after :: "Libraries \<Rightarrow> State \<Rightarrow> State \<Rightarrow> bool" where
  "after L st st' = (st' = st \<or> st' = snd (getHighlighter L st))"

definition same_headings :: "State \<Rightarrow> State \<Rightarrow> bool" where
  "same_headings a b = (heading_list a = heading_list b \<and> occurrences a = occurrences b)"

definition ids_fresh :: "State \<Rightarrow> bool" where
  "ids_fresh st = (distinct (map g_id (heading_list st))
     \<and> g_id ` set (heading_list st) \<subseteq> fst ` set (occurrences st))"

section \<open>Stand-ins for the libraries\<close>

text \<open>
  Where a statement is evaluated at a concrete document, the parameters need values. The
  stand-ins below agree with the packages on the documents whose markup a statement
  evaluates: a lexer for paragraphs,
  headings written with \<^verbatim>\<open>#\<close> and code blocks fenced with three backquotes; a highlighter
  that, like \<open>shiki\<close>, raises for a language or a theme that was not loaded and otherwise
  returns markup that names the theme and the language; a text-to-slug function that
  keeps letters, digits, hyphens and underscores, in lower case, and turns spaces into
  hyphens. \<open>broken_shiki\<close> is the same with a highlighter that cannot be created.
\<close>

fun split_lines :: "string \<Rightarrow> string list" where
  "split_lines [] = [[]]"
| "split_lines (x # xs) =
     (if x = LF then [] # split_lines xs
      else (case split_lines xs of l # ls \<Rightarrow> (x # l) # ls | [] \<Rightarrow> [[x]]))"

fun join_lines :: "string list \<Rightarrow> string" where
  "join_lines [] = []"
| "join_lines [l] = l"
| "join_lines (l # ls) = l @ LF # join_lines ls"

function lex_lines :: "string list \<Rightarrow> token list" where
  "lex_lines [] = []"
| "lex_lines (l # ls) =
     (if take 3 l = ''```'' then
        Code (join_lines (takeWhile (\<lambda>x. x \<noteq> ''```'') ls)) (Some (drop 3 l)) None
          # lex_lines (drop 1 (dropWhile (\<lambda>x. x \<noteq> ''```'') ls))
      else if l = [] then lex_lines ls
      else
        (let n = length (takeWhile (\<lambda>c. c = CHR ''#'') l) in
         if 1 \<le> n \<and> n \<le> 6 \<and> take 1 (drop n l) = '' ''
         then HeadingTok n (drop (n + 1) l) (drop (n + 1) l) # lex_lines ls
         else Other ''paragraph'' [Other l []] # lex_lines ls))"
  by pat_completeness auto
termination
  by (relation "measure length")
     (auto simp: less_Suc_eq_le intro: le_trans [OF diff_le_self length_dropWhile_le])

definition sample_highlighter :: "string list \<Rightarrow> string list \<Rightarrow> Highlighter" where
  "sample_highlighter themes langs code lang theme =
     (if lang \<in> set langs \<and> theme \<in> set themes
      then Inr (''<pre class=\"shiki '' @ theme @ ''\"><code class=\"language-'' @ lang @ ''\">''
                 @ code @ ''</code></pre>'')
      else Inl HighlightError)"

definition lower_char :: "char \<Rightarrow> char" where
  "lower_char ch =
     (case map_of (zip ''ABCDEFGHIJKLMNOPQRSTUVWXYZ'' ''abcdefghijklmnopqrstuvwxyz'') ch of
        Some d \<Rightarrow> d
      | None \<Rightarrow> ch)"

definition sample_slug_text :: "string \<Rightarrow> string" where
  "sample_slug_text raw =
     map (\<lambda>ch. if ch = CHR '' '' then CHR ''-'' else ch)
       (filter (\<lambda>ch. ch \<in> set ''abcdefghijklmnopqrstuvwxyz0123456789-_ '') (map lower_char raw))"

definition sample_render_other :: "string \<Rightarrow> string \<Rightarrow> string" where
  "sample_render_other p inner =
     (if p = ''paragraph'' then ''<p>'' @ inner @ ''</p>'' @ [LF] else p @ inner)"

definition sample_libs :: Libraries where
  "sample_libs =
     \<lparr> parseYaml = title_yaml,
       createHighlighter = (\<lambda>themes langs. Inr (sample_highlighter themes langs)),
       lexer = (\<lambda>src. lex_lines (split_lines src)),
       render_other = sample_render_other,
       slug_text = sample_slug_text \<rparr>"

definition broken_shiki :: Libraries where
  "broken_shiki = sample_libs \<lparr> createHighlighter := (\<lambda>themes langs. Inl HighlightError) \<rparr>"

section \<open>Flattening keeps the catalog's order\<close>

lemma push_items_eq: "push_items c xs flat = flat @ map (flat_entry c) xs"
  by (induction xs arbitrary: flat) simp_all

lemma push_categories_eq:
  "push_categories cs flat = flat @ concat (map (\<lambda>c. map (flat_entry c) (items c)) cs)"
  by (induction cs arbitrary: flat) (simp_all add: push_items_eq)

lemma flattenToc_eq:
  "flattenToc cat = concat (map (\<lambda>c. map (flat_entry c) (items c)) cat)"
  by (simp add: flattenToc_def push_categories_eq)

lemma length_flattenToc: "length (flattenToc cat) = offset cat (length cat)"
  by (simp add: flattenToc_eq offset_def length_concat comp_def)

lemma flattenToc_nth:
  "j < length cat \<Longrightarrow> i < length (items (cat ! j)) \<Longrightarrow>
   flattenToc cat ! (offset cat j + i) = flat_entry (cat ! j) (items (cat ! j) ! i)"
proof (induction cat arbitrary: j)
  case Nil
  then show ?case by simp
next
  case (Cons c cs)
  show ?case
  proof (cases j)
    case 0
    with Cons.prems show ?thesis
      by (simp add: flattenToc_eq offset_def nth_append)
  next
    case (Suc k)
    with Cons.prems have "k < length cs" and "i < length (items (cs ! k))"
      by simp_all
    from Cons.IH [OF this] Suc show ?thesis
      by (simp add: flattenToc_eq offset_def nth_append)
  qed
qed

lemma flatToc_slugs:
  "map slug flatToc =
    ['''', ''installation'', ''quickstart'',
     ''concepts/routing'', ''concepts/context'', ''concepts/middleware'', ''concepts/schema'',
     ''advanced/plugins'', ''advanced/mounting'', ''advanced/state'', ''advanced/workers'',
     ''api/kage'', ''api/context'', ''api/types'']"
  by (simp add: flatToc_def flattenToc_def toc_def flat_entry_def)

lemma distinct_flatToc_slugs: "distinct (map slug flatToc)"
  unfolding flatToc_slugs by simp

lemma offset_Suc: "j < length cat \<Longrightarrow> offset cat (Suc j) = offset cat j + length (items (cat ! j))"
  by (simp add: offset_def take_Suc_conv_app_nth)

lemma offset_mono: "j \<le> k \<Longrightarrow> offset cat j \<le> offset cat k"
proof (induction k)
  case 0
  then show ?case by simp
next
  case (Suc k)
  show ?case
  proof (cases "j = Suc k")
    case True
    then show ?thesis by simp
  next
    case False
    with Suc have le: "offset cat j \<le> offset cat k" by simp
    show ?thesis
    proof (cases "k < length cat")
      case True
      with le show ?thesis by (simp add: offset_Suc)
    next
      case False
      with le show ?thesis by (simp add: offset_def)
    qed
  qed
qed

lemma position_mono:
  assumes "j < length cat" and "i < length (items (cat ! j))"
    and "j < j' \<or> (j = j' \<and> i < i')"
  shows "offset cat j + i < offset cat j' + i'"
proof (cases "j < j'")
  case True
  then have "offset cat (Suc j) \<le> offset cat j'"
    by (intro offset_mono) simp
  with assms(1,2) show ?thesis by (simp add: offset_Suc)
next
  case False
  with assms(3) show ?thesis by simp
qed

lemma flatToc_entries:
  "flatToc =
    [ \<lparr> title = ''Introduction'', slug = '''', file = ''index.md'',
        category = ''Getting Started'', href = ''/docs'' \<rparr>,
      \<lparr> title = ''Installation'', slug = ''installation'', file = ''installation.md'',
        category = ''Getting Started'', href = ''/docs/installation'' \<rparr>,
      \<lparr> title = ''Quick Start'', slug = ''quickstart'', file = ''quickstart.md'',
        category = ''Getting Started'', href = ''/docs/quickstart'' \<rparr>,
      \<lparr> title = ''Routing'', slug = ''concepts/routing'', file = ''concepts/routing.md'',
        category = ''Core Concepts'', href = ''/docs/concepts/routing'' \<rparr>,
      \<lparr> title = ''Context'', slug = ''concepts/context'', file = ''concepts/context.md'',
        category = ''Core Concepts'', href = ''/docs/concepts/context'' \<rparr>,
      \<lparr> title = ''Middleware'', slug = ''concepts/middleware'',
        file = ''concepts/middleware.md'',
        category = ''Core Concepts'', href = ''/docs/concepts/middleware'' \<rparr>,
      \<lparr> title = ''Schema Validation'', slug = ''concepts/schema'',
        file = ''concepts/schema.md'',
        category = ''Core Concepts'', href = ''/docs/concepts/schema'' \<rparr>,
      \<lparr> title = ''Plugins'', slug = ''advanced/plugins'', file = ''advanced/plugins.md'',
        category = ''Advanced'', href = ''/docs/advanced/plugins'' \<rparr>,
      \<lparr> title = ''Mounting Routers'', slug = ''advanced/mounting'',
        file = ''advanced/mounting.md'',
        category = ''Advanced'', href = ''/docs/advanced/mounting'' \<rparr>,
      \<lparr> title = ''State Management'', slug = ''advanced/state'',
        file = ''advanced/state.md'',
        category = ''Advanced'', href = ''/docs/advanced/state'' \<rparr>,
      \<lparr> title = ''Workers'', slug = ''advanced/workers'', file = ''advanced/workers.md'',
        category = ''Advanced'', href = ''/docs/advanced/workers'' \<rparr>,
      \<lparr> title = ''Kage Class'', slug = ''api/kage'', file = ''api/kage.md'',
        category = ''API Reference'', href = ''/docs/api/kage'' \<rparr>,
      \<lparr> title = ''Context'', slug = ''api/context'', file = ''api/context.md'',
        category = ''API Reference'', href = ''/docs/api/context'' \<rparr>,
      \<lparr> title = ''Types'', slug = ''api/types'', file = ''api/types.md'',
        category = ''API Reference'', href = ''/docs/api/types'' \<rparr> ]"
  by (simp add: flatToc_def flattenToc_def toc_def flat_entry_def)

lemma toc_shape: "length toc = 4" "length (items (toc ! 1)) = 4"
  "offset toc 1 = 3" "offset toc 2 = 7" "offset toc 4 = 14"
  by (simp_all add: toc_def offset_def)

lemma toc_item_1_2:
  "flat_entry (toc ! 1) (items (toc ! 1) ! 2) =
     \<lparr> title = ''Middleware'', slug = ''concepts/middleware'', file = ''concepts/middleware.md'',
       category = ''Core Concepts'', href = ''/docs/concepts/middleware'' \<rparr>"
  by (simp add: toc_def flat_entry_def)

text \<open>
  C7. The flattened sequence keeps the category-then-item order of the catalog: for every
  catalog, item \<open>i\<close> of category \<open>j\<close> is the element of the flattened sequence at index
  \<open>offset cat j + i\<close> (the number of items in the categories before \<open>j\<close>, plus \<open>i\<close>), these
  indices grow strictly with \<open>(j, i)\<close> in lexicographic order, and the flattened sequence has
  no other element. The slugs of the flattened sequence of the site's catalog \<open>toc\<close> are
  pairwise distinct.
\<close>

theorem flattenToc_order_and_distinct_slugs:
  "(\<forall>j<length cat. \<forall>i<length (items (cat ! j)).
      flattenToc cat ! (offset cat j + i) = flat_entry (cat ! j) (items (cat ! j) ! i) \<and>
      (\<forall>j' i'. j < j' \<or> (j = j' \<and> i < i') \<longrightarrow> offset cat j + i < offset cat j' + i'))
   \<and> length (flattenToc cat) = offset cat (length cat)
   \<and> distinct (map slug flatToc)"
proof (intro conjI allI impI)
  fix j i
  assume j: "j < length cat" and i: "i < length (items (cat ! j))"
  then show "flattenToc cat ! (offset cat j + i) = flat_entry (cat ! j) (items (cat ! j) ! i)"
    by (rule flattenToc_nth)
  fix j' i'
  assume "j < j' \<or> (j = j' \<and> i < i')"
  with j i show "offset cat j + i < offset cat j' + i'"
    by (rule position_mono)
next
  show "length (flattenToc cat) = offset cat (length cat)"
    by (rule length_flattenToc)
  show "distinct (map slug flatToc)"
    by (rule distinct_flatToc_slugs)
qed

theorem flattenToc_order_and_distinct_slugs_witness:
  "flattenToc toc ! 5 =
     \<lparr> title = ''Middleware'', slug = ''concepts/middleware'', file = ''concepts/middleware.md'',
       category = ''Core Concepts'', href = ''/docs/concepts/middleware'' \<rparr>
   \<and> offset toc 1 + 2 < offset toc 2 + 0
   \<and> length (flattenToc toc) = 14
   \<and> distinct (map slug flatToc)"
proof -
  note inst = flattenToc_order_and_distinct_slugs [of toc]
  have a: "(1::nat) < length toc" and b: "2 < length (items (toc ! 1))"
    unfolding toc_shape by simp_all
  from inst have "\<forall>j<length toc. \<forall>i<length (items (toc ! j)).
      flattenToc toc ! (offset toc j + i) = flat_entry (toc ! j) (items (toc ! j) ! i) \<and>
      (\<forall>j' i'. j < j' \<or> (j = j' \<and> i < i') \<longrightarrow> offset toc j + i < offset toc j' + i')"
    by (rule conjunct1)
  from this [rule_format, OF a b]
  have 1: "flattenToc toc ! (offset toc 1 + 2) = flat_entry (toc ! 1) (items (toc ! 1) ! 2)"
    and 2: "\<And>j' i'. 1 < j' \<or> (1 = j' \<and> 2 < i') \<Longrightarrow> offset toc 1 + 2 < offset toc j' + i'"
    by blast+
  from inst have 3: "length (flattenToc toc) = offset toc (length toc)"
    and 4: "distinct (map slug flatToc)"
    by simp_all
  have 5: "offset toc 1 + 2 < offset toc 2 + 0" by (rule 2) simp
  from 1 [unfolded toc_shape]
  have 6: "flattenToc toc ! 5 = flat_entry (toc ! 1) (items (toc ! 1) ! 2)"
    by simp
  from 3 have 7: "length (flattenToc toc) = 14" by (simp only: toc_shape)
  from 6 5 7 4 show ?thesis unfolding toc_item_1_2 by (intro conjI)
qed


section \<open>Lookup and neighbours\<close>

lemma findIndex_none: "(\<forall>x\<in>set xs. \<not> P x) \<Longrightarrow> findIndex P xs = - 1"
  by (induction xs) simp_all

lemma findIndex_first:
  "i < length xs \<Longrightarrow> P (xs ! i) \<Longrightarrow> (\<forall>k<i. \<not> P (xs ! k)) \<Longrightarrow> findIndex P xs = int i"
proof (induction xs arbitrary: i)
  case Nil
  then show ?case by simp
next
  case (Cons x xs)
  show ?case
  proof (cases i)
    case 0
    with Cons.prems show ?thesis by simp
  next
    case (Suc k)
    with Cons.prems have a: "k < length xs" "P (xs ! k)" by simp_all
    from Cons.prems Suc have b: "\<forall>m<k. \<not> P (xs ! m)" by fastforce
    from Cons.prems Suc have c: "\<not> P x" by fastforce
    from Cons.IH [OF a b] c Suc show ?thesis by simp
  qed
qed

lemma findIndex_distinct:
  assumes "distinct (map f xs)" and "i < length xs"
  shows "findIndex (\<lambda>e. f e = f (xs ! i)) xs = int i"
proof (rule findIndex_first)
  show "i < length xs" by fact
  show "f (xs ! i) = f (xs ! i)" by simp
  show "\<forall>k<i. f (xs ! k) \<noteq> f (xs ! i)"
  proof (intro allI impI)
    fix k assume "k < i"
    with assms have "map f xs ! k \<noteq> map f xs ! i"
      by (auto simp: distinct_conv_nth)
    with assms \<open>k < i\<close> show "f (xs ! k) \<noteq> f (xs ! i)" by simp
  qed
qed

lemma getNavigation_absent:
  assumes "s \<notin> slug ` set flat"
  shows "getNavigation flat s = \<lparr> prev = None, next = None \<rparr>"
proof -
  from assms have "findIndex (\<lambda>entry. slug entry = s) flat = - 1"
    by (intro findIndex_none) auto
  then show ?thesis by (simp add: getNavigation_def)
qed

lemma getNavigation_at:
  assumes "distinct (map slug flat)" and "i < length flat"
  shows "getNavigation flat (slug (flat ! i)) =
    \<lparr> prev = (if i = 0 then None else Some (nav_entry (flat ! (i - 1)))),
      next = (if Suc i < length flat then Some (nav_entry (flat ! Suc i)) else None) \<rparr>"
proof -
  have idx: "findIndex (\<lambda>entry. slug entry = slug (flat ! i)) flat = int i"
    using assms by (rule findIndex_distinct)
  have p: "at_index flat (int i - 1) = (if i = 0 then None else Some (flat ! (i - 1)))"
    using assms(2) by (cases i) (simp_all add: at_index_def)
  have n: "at_index flat (int i + 1) = (if Suc i < length flat then Some (flat ! Suc i) else None)"
    by (simp add: at_index_def nat_add_distrib)
  show ?thesis
    by (simp add: getNavigation_def idx p n)
qed

lemma length_flatToc: "length flatToc = 14"
  by (simp add: flatToc_def flattenToc_def toc_def)

lemma getEntryBySlug_absent: "s \<notin> slug ` set flat \<Longrightarrow> getEntryBySlug flat s = None"
  by (auto simp: getEntryBySlug_def find_None_iff)

lemma href_flattenToc:
  "e \<in> set (flattenToc cat) \<Longrightarrow>
   href e = (if slug e = [] then ''/docs'' else ''/docs/'' @ slug e)"
  by (auto simp: flattenToc_eq flat_entry_def)

text \<open>
  C8. \<open>getNavigation\<close> on the site's flattened sequence: a slug that no entry has gives
  neither a previous nor a next entry; the slug of the first entry gives no previous entry
  and the second entry as next; the slug of the last entry gives no next entry; the slug of
  an entry at an interior index \<open>i\<close> gives the entries at \<open>i - 1\<close> and \<open>i + 1\<close>. The entries
  are returned as \<open>NavEntry\<close> objects (title, category and address of the neighbour).
\<close>

theorem getNavigation_neighbors:
  "(s \<notin> slug ` set flatToc \<longrightarrow> getNavigation flatToc s = \<lparr> prev = None, next = None \<rparr>)
   \<and> getNavigation flatToc (slug (flatToc ! 0)) =
        \<lparr> prev = None, next = Some (nav_entry (flatToc ! 1)) \<rparr>
   \<and> next (getNavigation flatToc (slug (last flatToc))) = None
   \<and> (\<forall>i. 0 < i \<and> Suc i < length flatToc \<longrightarrow>
        getNavigation flatToc (slug (flatToc ! i)) =
          \<lparr> prev = Some (nav_entry (flatToc ! (i - 1))),
            next = Some (nav_entry (flatToc ! Suc i)) \<rparr>)"
proof (intro conjI allI impI)
  assume "s \<notin> slug ` set flatToc"
  then show "getNavigation flatToc s = \<lparr> prev = None, next = None \<rparr>"
    by (rule getNavigation_absent)
next
  have "0 < length flatToc" by (simp add: length_flatToc)
  from getNavigation_at [OF distinct_flatToc_slugs this]
  show "getNavigation flatToc (slug (flatToc ! 0)) =
        \<lparr> prev = None, next = Some (nav_entry (flatToc ! 1)) \<rparr>"
    by (simp add: length_flatToc)
next
  have l: "last flatToc = flatToc ! 13"
    by (simp add: last_conv_nth length_flatToc flip: length_0_conv)
  have "13 < length flatToc" by (simp add: length_flatToc)
  from getNavigation_at [OF distinct_flatToc_slugs this]
  show "next (getNavigation flatToc (slug (last flatToc))) = None"
    by (simp add: l length_flatToc)
next
  fix i assume i: "0 < i \<and> Suc i < length flatToc"
  then have "i < length flatToc" by simp
  from getNavigation_at [OF distinct_flatToc_slugs this] i
  show "getNavigation flatToc (slug (flatToc ! i)) =
          \<lparr> prev = Some (nav_entry (flatToc ! (i - 1))),
            next = Some (nav_entry (flatToc ! Suc i)) \<rparr>"
    by simp
qed

theorem getNavigation_neighbors_witness:
  "getNavigation flatToc ''no-such-page'' = \<lparr> prev = None, next = None \<rparr>
   \<and> getNavigation flatToc '''' =
       \<lparr> prev = None,
         next = Some \<lparr> nav_title = ''Installation'', nav_category = Some ''Getting Started'',
                       nav_href = ''/docs/installation'' \<rparr> \<rparr>
   \<and> next (getNavigation flatToc ''api/types'') = None
   \<and> getNavigation flatToc ''concepts/routing'' =
       \<lparr> prev = Some \<lparr> nav_title = ''Quick Start'', nav_category = Some ''Getting Started'',
                       nav_href = ''/docs/quickstart'' \<rparr>,
         next = Some \<lparr> nav_title = ''Context'', nav_category = Some ''Core Concepts'',
                       nav_href = ''/docs/concepts/context'' \<rparr> \<rparr>"
proof -
  note inst = getNavigation_neighbors [of "''no-such-page''"]
  have absent: "''no-such-page'' \<notin> slug ` set flatToc"
    by (simp add: flatToc_entries)
  have interior: "0 < (3::nat) \<and> Suc 3 < length flatToc"
    by (simp add: length_flatToc)
  have slugs: "slug (flatToc ! 0) = ''''" "slug (last flatToc) = ''api/types''"
    "slug (flatToc ! 3) = ''concepts/routing''"
    by (simp_all add: flatToc_entries)
  have navs: "nav_entry (flatToc ! 1) = \<lparr> nav_title = ''Installation'',
      nav_category = Some ''Getting Started'', nav_href = ''/docs/installation'' \<rparr>"
    "nav_entry (flatToc ! (3 - 1)) = \<lparr> nav_title = ''Quick Start'',
      nav_category = Some ''Getting Started'', nav_href = ''/docs/quickstart'' \<rparr>"
    "nav_entry (flatToc ! Suc 3) = \<lparr> nav_title = ''Context'',
      nav_category = Some ''Core Concepts'', nav_href = ''/docs/concepts/context'' \<rparr>"
    by (simp_all add: flatToc_entries nav_entry_def)
  from inst absent have 1: "getNavigation flatToc ''no-such-page'' = \<lparr> prev = None, next = None \<rparr>"
    by simp
  from inst have 2: "getNavigation flatToc (slug (flatToc ! 0)) =
        \<lparr> prev = None, next = Some (nav_entry (flatToc ! 1)) \<rparr>"
    and 3: "next (getNavigation flatToc (slug (last flatToc))) = None"
    and 4: "\<forall>i. 0 < i \<and> Suc i < length flatToc \<longrightarrow>
        getNavigation flatToc (slug (flatToc ! i)) =
          \<lparr> prev = Some (nav_entry (flatToc ! (i - 1))),
            next = Some (nav_entry (flatToc ! Suc i)) \<rparr>"
    by simp_all
  note 5 = 4 [rule_format, OF interior]
  from 1 2 3 5 show ?thesis
    unfolding slugs navs by (intro conjI)
qed


text \<open>
  C9. \<open>getEntryBySlug\<close> on the site's flattened sequence: the empty slug resolves to the
  introduction entry, whose address is the root address \<open>/docs\<close>; the slug
  \<open>nonexistent-slug\<close>, as every slug that no entry has, resolves to nothing. For every
  catalog, the address of every flattened entry is \<open>/docs\<close> when its slug is empty and
  \<open>/docs/\<close> followed by the slug otherwise.
\<close>

theorem getEntryBySlug_resolve:
  "getEntryBySlug flatToc '''' =
     Some \<lparr> title = ''Introduction'', slug = '''', file = ''index.md'',
            category = ''Getting Started'', href = ''/docs'' \<rparr>
   \<and> getEntryBySlug flatToc ''nonexistent-slug'' = None
   \<and> (s \<notin> slug ` set flatToc \<longrightarrow> getEntryBySlug flatToc s = None)
   \<and> (\<forall>e \<in> set (flattenToc cat).
        href e = (if slug e = [] then ''/docs'' else ''/docs/'' @ slug e))"
proof (intro conjI ballI impI)
  show "getEntryBySlug flatToc '''' =
     Some \<lparr> title = ''Introduction'', slug = '''', file = ''index.md'',
            category = ''Getting Started'', href = ''/docs'' \<rparr>"
    by (simp add: getEntryBySlug_def flatToc_def flattenToc_def toc_def flat_entry_def)
next
  show "getEntryBySlug flatToc ''nonexistent-slug'' = None"
    by (simp add: getEntryBySlug_def flatToc_def flattenToc_def toc_def flat_entry_def)
next
  assume "s \<notin> slug ` set flatToc"
  then show "getEntryBySlug flatToc s = None" by (rule getEntryBySlug_absent)
next
  fix e assume "e \<in> set (flattenToc cat)"
  then show "href e = (if slug e = [] then ''/docs'' else ''/docs/'' @ slug e)"
    by (rule href_flattenToc)
qed

theorem getEntryBySlug_resolve_witness:
  "getEntryBySlug flatToc ''api'' = None
   \<and> href (flattenToc toc ! 1) = ''/docs/installation''
   \<and> href (flattenToc toc ! 0) = ''/docs''"
proof -
  note inst = getEntryBySlug_resolve [of "''api''" toc]
  have absent: "''api'' \<notin> slug ` set flatToc"
    by (simp add: flatToc_entries)
  have mem: "flattenToc toc ! 1 \<in> set (flattenToc toc)" "flattenToc toc ! 0 \<in> set (flattenToc toc)"
    by (simp_all add: length_flatToc [unfolded flatToc_def])
  have slugs: "slug (flattenToc toc ! 1) = ''installation''" "slug (flattenToc toc ! 0) = []"
    by (simp_all add: flatToc_entries [unfolded flatToc_def])
  from inst absent have 1: "getEntryBySlug flatToc ''api'' = None" by simp
  from inst have "\<forall>e \<in> set (flattenToc toc).
        href e = (if slug e = [] then ''/docs'' else ''/docs/'' @ slug e)"
    by simp
  from this [rule_format, OF mem(1)] this [rule_format, OF mem(2)]
  have 2: "href (flattenToc toc ! 1) = ''/docs/installation''"
    and 3: "href (flattenToc toc ! 0) = ''/docs''"
    unfolding slugs by simp_all
  from 1 2 3 show ?thesis by (intro conjI)
qed


section \<open>The header pattern, unfolded\<close>

lemma first_of_simps [simp]: "first_of [] = None" "first_of (x # xs) = Some x"
  by (simp_all add: first_of_def)

lemma mss_Nil: "mss [] = (\<lambda>cf. [cf])"
  by (rule ext) simp

lemma concat_map_single: "concat (map (\<lambda>x. [x]) xs) = xs"
  by (induction xs) simp_all

lemma mss_single: "mss [e] cf = ms e cf"
  by (simp add: mss_Nil concat_map_single)

lemma mss_Ch:
  "mss (Ch a # es) (p, r, c) =
    (case r of [] \<Rightarrow> [] | x # xs \<Rightarrow> if atom_ok a x then mss es (Suc p, xs, c) else [])"
  by (simp split: list.splits)

lemma mss_eol:
  "mss (Opt (Ch (Lit CR)) # Ch (Lit LF) # es) (p, r, c) =
    (case strip_eol r of None \<Rightarrow> [] | Some r' \<Rightarrow> mss es (p + (length r - length r'), r', c))"
proof (cases r rule: strip_eol.cases)
  case (1 a b r')
  then show ?thesis by (simp add: mss_Ch)
next
  case (2 a)
  then show ?thesis by (simp add: mss_Ch)
next
  case 3
  then show ?thesis by (simp add: mss_Ch)
qed

lemma mss_dashes:
  "mss (Ch (Lit CHR ''-'') # Ch (Lit CHR ''-'') # Ch (Lit CHR ''-'') # es) (p, r, c) =
    (case strip_dashes r of None \<Rightarrow> [] | Some r' \<Rightarrow> mss es (p + 3, r', c))"
proof (cases r)
  case Nil
  then show ?thesis by (simp add: mss_Ch)
next
  case (Cons a r1)
  note c1 = this
  show ?thesis
  proof (cases r1)
    case Nil
    with c1 show ?thesis by (simp add: mss_Ch)
  next
    case (Cons b r2)
    note c2 = this
    show ?thesis
    proof (cases r2)
      case Nil
      with c1 c2 show ?thesis by (simp add: mss_Ch)
    next
      case (Cons d r3)
      with c1 c2 show ?thesis by (simp add: mss_Ch eval_nat_numeral)
    qed
  qed
qed

lemma greedy_any_end:
  "concat (map (\<lambda>(p', r'). if r' = [] then [F p' r'] else []) (greedy_star AnyChar p r)) =
     [F (p + length r) []]"
  by (induction r arbitrary: p) simp_all

lemma mss_Eol: "mss [Eol] cf = (if fst (snd cf) = [] then [cf] else [])"
  by (cases cf) (simp add: mss_single)

lemma mss_body:
  "mss [Group 2 [GreedyStar AnyChar], Eol] (p, r, c) = [(p + length r, [], (2, r) # c)]"
proof -
  have "mss [Group 2 [GreedyStar AnyChar], Eol] (p, r, c) =
     concat (map (\<lambda>(p', r'). if r' = [] then [(p', r', (2, take (p' - p) r) # c)] else [])
       (greedy_star AnyChar p r))"
    by (subst mss.simps(2)) (simp add: mss_single mss_Eol comp_def case_prod_unfold del: mss.simps)
  also have "\<dots> = [(p + length r, [], (2, take (p + length r - p) r) # c)]"
    by (rule greedy_any_end)
  finally show ?thesis by simp
qed


lemma strip_eol_length: "strip_eol r = Some r' \<Longrightarrow> length r' < length r"
  by (cases r rule: strip_eol.cases) (auto split: if_splits)

lemma strip_dashes_length: "strip_dashes r = Some r' \<Longrightarrow> length r = length r' + 3"
  by (cases r rule: strip_dashes.cases) (auto split: if_splits)

lemma mss_closing_tail:
  "mss closing_tail (p, r, c) =
     (case closing r of None \<Rightarrow> [] | Some b \<Rightarrow> [(p + length r, [], (2, b) # c)])"
proof (cases "strip_eol r")
  case None
  then show ?thesis
    unfolding closing_tail_def by (simp only: mss_eol) (simp add: closing_def)
next
  case (Some r1)
  note r1 = this
  show ?thesis
  proof (cases "strip_dashes r1")
    case None
    with r1 show ?thesis
      unfolding closing_tail_def by (simp only: mss_eol mss_dashes) (simp add: closing_def)
  next
    case (Some r2)
    note r2 = this
    show ?thesis
    proof (cases "strip_eol r2")
      case None
      with r1 r2 show ?thesis
        unfolding closing_tail_def by (simp only: mss_eol mss_dashes) (simp add: closing_def)
    next
      case (Some b)
      from strip_eol_length [OF r1] strip_dashes_length [OF r2] strip_eol_length [OF Some]
      have "p + (length r - length r1) + 3 + (length r2 - length b) + length b = p + length r"
        by simp
      with r1 r2 Some show ?thesis
        unfolding closing_tail_def
        by (simp only: mss_eol mss_dashes mss_body) (simp add: closing_def)
    qed
  qed
qed

lemma lazy_any_first:
  "first_of (concat (map (\<lambda>(p', r'). case closing r' of None \<Rightarrow> []
         | Some b \<Rightarrow> [G (p' + length r') (take (p' - p0) (pre @ r)) b])
       (lazy_star AnyChar (p0 + length pre) r)))
   = map_option (\<lambda>(y, b). G (p0 + length pre + length r) (pre @ y) b) (find_closing r)"
proof (induction r arbitrary: pre)
  case Nil
  then show ?case by (simp add: closing_def)
next
  case (Cons x xs)
  show ?case
  proof (cases "closing (x # xs)")
    case (Some b)
    then show ?thesis by simp
  next
    case None
    from Cons.IH [of "pre @ [x]"] None show ?thesis
      by (simp add: option.map_comp comp_def case_prod_unfold cong: option.case_cong)
  qed
qed

lemma mss_header_rest:
  "first_of (mss (Group n [LazyStar AnyChar] # closing_tail) (p, r, c)) =
     map_option (\<lambda>(y, b). (p + length r, [], (2, b) # (n, y) # c)) (find_closing r)"
proof -
  have "mss (Group n [LazyStar AnyChar] # closing_tail) (p, r, c) =
     concat (map (\<lambda>(p', r'). case closing r' of None \<Rightarrow> []
         | Some b \<Rightarrow> [(p' + length r', [], (2, b) # (n, take (p' - p) ([] @ r)) # c)])
       (lazy_star AnyChar (p + length ([]::string)) r))"
    by (subst mss.simps(2))
      (simp add: mss_single mss_closing_tail comp_def case_prod_unfold del: mss.simps
         cong: option.case_cong)
  then show ?thesis
    by (simp only: lazy_any_first [where G = "\<lambda>q y b. (q, [], (2, b) # (n, y) # c)"]) simp
qed

lemma mss_frontmatter_0:
  "first_of (mss frontmatterRegex (0, s, [])) =
     map_option (\<lambda>(y, b). (length s, [], [(2, b), (1, y)])) (header_split s)"
proof (cases "strip_dashes s")
  case None
  then show ?thesis
    unfolding frontmatterRegex_def
    by (subst mss.simps(2)) (simp add: mss_dashes header_split_def del: mss.simps)
next
  case (Some r1)
  note r1 = this
  show ?thesis
  proof (cases "strip_eol r1")
    case None
    with r1 show ?thesis
      unfolding frontmatterRegex_def
      by (subst mss.simps(2)) (simp add: mss_dashes mss_eol header_split_def del: mss.simps)
  next
    case (Some r2)
    from strip_dashes_length [OF r1] strip_eol_length [OF Some]
    have len: "3 + (length r1 - length r2) + length r2 = length s" by simp
    have "first_of (mss frontmatterRegex (0, s, [])) =
      first_of (mss (Group 1 [LazyStar AnyChar] # closing_tail) (3 + (length r1 - length r2), r2, []))"
      using r1 Some unfolding frontmatterRegex_def closing_tail_def
      by (subst mss.simps(2)) (simp add: mss_dashes mss_eol del: mss.simps)
    with r1 Some len show ?thesis
      by (simp add: mss_header_rest header_split_def del: mss.simps ms.simps)
  qed
qed

lemma mss_frontmatter_pos: "0 < p \<Longrightarrow> mss frontmatterRegex (p, r, c) = []"
  unfolding frontmatterRegex_def by (subst mss.simps(2)) simp

lemma exec_from_pos: "0 < p \<Longrightarrow> exec_from frontmatterRegex p r = None"
  by (induction r arbitrary: p) (simp_all add: mss_frontmatter_pos)

lemma header_split_Nil: "header_split [] = None"
  by (simp add: header_split_def)

lemma exec_frontmatter:
  "exec_from frontmatterRegex 0 s =
     map_option (\<lambda>(y, b). (length s, [], [(2, b), (1, y)])) (header_split s)"
proof (cases s)
  case Nil
  have "mss frontmatterRegex (0, [], []) = []"
    unfolding frontmatterRegex_def by (subst mss.simps(2)) (simp add: mss_dashes del: mss.simps)
  with Nil show ?thesis by (simp add: header_split_Nil)
next
  case (Cons x xs)
  have "exec_from frontmatterRegex 0 (x # xs) =
    (case first_of (mss frontmatterRegex (0, x # xs, [])) of Some cf \<Rightarrow> Some cf
     | None \<Rightarrow> exec_from frontmatterRegex (Suc 0) xs)"
    by (simp add: first_of_def split: list.splits)
  also have "\<dots> = first_of (mss frontmatterRegex (0, x # xs, []))"
    by (simp add: exec_from_pos split: option.splits)
  finally show ?thesis
    unfolding Cons by (simp only: mss_frontmatter_0)
qed

lemma js_match_frontmatter:
  "js_match s frontmatterRegex =
     map_option (\<lambda>(y, b). map_of [(2, b), (1, y)]) (header_split s)"
  by (simp add: js_match_def exec_frontmatter option.map_comp comp_def case_prod_unfold)

lemma frontmatter_groups:
  "js_match s frontmatterRegex = Some m \<Longrightarrow> \<exists>y b. m 1 = Some y \<and> m 2 = Some b"
  by (auto simp: js_match_frontmatter)

lemma parseFrontmatter_split:
  "parseFrontmatter py s =
     (case header_split s of
        None \<Rightarrow> \<lparr> data = YMap [], content = s \<rparr>
      | Some (y, b) \<Rightarrow>
          (case py y of
             Inr d \<Rightarrow> \<lparr> data = (if d = YNull then YMap [] else d), content = b \<rparr>
           | Inl e \<Rightarrow> \<lparr> data = YMap [], content = b \<rparr>))"
  by (simp add: parseFrontmatter_def js_match_frontmatter split: option.splits)

section \<open>The shape of the texts in which a header is found\<close>

lemma eol_ex: "(\<exists>e. eol e \<and> r = e @ r') \<longleftrightarrow> r = LF # r' \<or> r = CR # LF # r'"
  unfolding eol_def by (metis append_Cons append_Nil)

lemma strip_eol_iff: "strip_eol r = Some r' \<longleftrightarrow> (\<exists>e. eol e \<and> r = e @ r')"
  unfolding eol_ex by (cases r rule: strip_eol.cases) auto

lemma strip_dashes_iff: "strip_dashes r = Some r' \<longleftrightarrow> r = ''---'' @ r'"
  by (cases r rule: strip_dashes.cases) auto

lemma closing_iff:
  "closing r = Some b \<longleftrightarrow> (\<exists>e e'. eol e \<and> eol e' \<and> r = e @ ''---'' @ e' @ b)"
  unfolding closing_def
  by (simp only: bind_eq_Some_conv strip_eol_iff strip_dashes_iff) blast

lemma closing_Nil: "closing [] = None"
  by (simp add: closing_def)

lemma find_closing_sound:
  "find_closing r = Some (y, b) \<Longrightarrow> closing (drop (length y) r) = Some b \<and> take (length y) r = y"
proof (induction r arbitrary: y)
  case Nil
  then show ?case by simp
next
  case (Cons x xs)
  show ?case
  proof (cases "closing (x # xs)")
    case None
    with Cons.prems obtain y' where "find_closing xs = Some (y', b)" and "y = x # y'"
      by auto
    with Cons.IH [of y'] show ?thesis by simp
  next
    case (Some b')
    with Cons.prems show ?thesis by simp
  qed
qed

lemma find_closing_complete:
  "closing (drop k r) \<noteq> None \<Longrightarrow> find_closing r \<noteq> None"
proof (induction r arbitrary: k)
  case Nil
  then show ?case by (simp add: closing_Nil)
next
  case (Cons x xs)
  show ?case
  proof (cases k)
    case 0
    with Cons.prems show ?thesis by auto
  next
    case (Suc j)
    with Cons.prems have "closing (drop j xs) \<noteq> None" by simp
    from Cons.IH [OF this] show ?thesis by (auto split: option.splits)
  qed
qed

text \<open>The header is found exactly in the texts of the shape: delimiter line, block,
  delimiter line, body.\<close>

lemma header_split_Some_iff:
  "header_split s \<noteq> None \<longleftrightarrow>
    (\<exists>e1 y e2 e3 b. eol e1 \<and> eol e2 \<and> eol e3 \<and> s = ''---'' @ e1 @ y @ e2 @ ''---'' @ e3 @ b)"
proof
  assume "header_split s \<noteq> None"
  then obtain y b where "header_split s = Some (y, b)" by auto
  then obtain r1 r2 where r1: "strip_dashes s = Some r1" and r2: "strip_eol r1 = Some r2"
    and f: "find_closing r2 = Some (y, b)"
    by (auto simp: header_split_def bind_eq_Some_conv)
  from r1 have s: "s = ''---'' @ r1" by (simp only: strip_dashes_iff)
  from r2 obtain e1 where e1: "eol e1" "r1 = e1 @ r2" by (auto simp only: strip_eol_iff)
  from find_closing_sound [OF f] obtain e2 e3 where
    e: "eol e2" "eol e3" "drop (length y) r2 = e2 @ ''---'' @ e3 @ b" and y: "take (length y) r2 = y"
    by (auto simp only: closing_iff)
  have "r2 = take (length y) r2 @ drop (length y) r2" by simp
  with e y have "r2 = y @ e2 @ ''---'' @ e3 @ b" by simp
  with s e1 e show "\<exists>e1 y e2 e3 b. eol e1 \<and> eol e2 \<and> eol e3 \<and> s = ''---'' @ e1 @ y @ e2 @ ''---'' @ e3 @ b"
    by blast
next
  assume "\<exists>e1 y e2 e3 b. eol e1 \<and> eol e2 \<and> eol e3 \<and> s = ''---'' @ e1 @ y @ e2 @ ''---'' @ e3 @ b"
  then obtain e1 y e2 e3 b where e: "eol e1" "eol e2" "eol e3"
    and s: "s = ''---'' @ e1 @ y @ e2 @ ''---'' @ e3 @ b" by blast
  let ?r = "y @ e2 @ ''---'' @ e3 @ b"
  have 1: "strip_dashes s = Some (e1 @ ?r)" unfolding s by (simp only: strip_dashes_iff)
  have 2: "strip_eol (e1 @ ?r) = Some ?r" using e(1) by (auto simp only: strip_eol_iff)
  have "closing (drop (length y) ?r) = Some b"
    using e(2,3) by (simp only: closing_iff drop_append) auto
  then have "find_closing ?r \<noteq> None" by (intro find_closing_complete [of "length y"]) simp
  with 1 2 show "header_split s \<noteq> None" by (simp add: header_split_def)
qed

lemma dashes_prefix:
  assumes "xs @ e @ t = ''---'' @ u" and "eol e"
  shows "take (length ''---'') xs = ''---''"
proof (cases xs)
  case Nil
  with assms show ?thesis by (auto simp: eol_def)
next
  case (Cons a xs1)
  note c1 = this
  show ?thesis
  proof (cases xs1)
    case Nil
    with c1 assms show ?thesis by (auto simp: eol_def)
  next
    case (Cons b xs2)
    note c2 = this
    show ?thesis
    proof (cases xs2)
      case Nil
      with c1 c2 assms show ?thesis by (auto simp: eol_def)
    next
      case (Cons c xs3)
      with c1 c2 assms show ?thesis by simp
    qed
  qed
qed

lemma closing_inside:
  assumes "closing ((x # xs) @ e @ t) = Some b" and "eol e"
  shows "occurs (LF # ''---'') (x # xs) \<or> (xs = [] \<and> x = CR \<and> e = [LF])"
proof -
  from assms(1) obtain e1 e2 where e: "eol e1" "eol e2"
    and eq: "(x # xs) @ e @ t = e1 @ ''---'' @ e2 @ b"
    by (auto simp only: closing_iff)
  from e(1) consider "e1 = [LF]" | "e1 = [CR, LF]" by (auto simp: eol_def)
  then show ?thesis
  proof cases
    case 1
    with eq have "x = LF" and "xs @ e @ t = ''---'' @ e2 @ b" by simp_all
    from dashes_prefix [OF this(2) assms(2)] \<open>x = LF\<close> show ?thesis by simp
  next
    case 2
    with eq have x: "x = CR" and r: "xs @ e @ t = LF # ''---'' @ e2 @ b" by simp_all
    show ?thesis
    proof (cases xs)
      case Nil
      with r assms(2) x show ?thesis by (auto simp: eol_def)
    next
      case (Cons a xs1)
      with r have "a = LF" and "xs1 @ e @ t = ''---'' @ e2 @ b" by simp_all
      from dashes_prefix [OF this(2) assms(2)] \<open>a = LF\<close> Cons show ?thesis by simp
    qed
  qed
qed

lemma closing_eol: "eol e2 \<Longrightarrow> eol e3 \<Longrightarrow> closing (e2 @ ''---'' @ e3 @ b) = Some b"
  by (simp only: closing_iff) blast

lemma find_closing_first:
  assumes "\<not> occurs (LF # ''---'') y" and "y \<noteq> [] \<longrightarrow> last y \<noteq> CR"
    and "eol e2" and "eol e3"
  shows "find_closing (y @ e2 @ ''---'' @ e3 @ b) = Some (y, b)"
  using assms(1,2)
proof (induction y)
  case Nil
  from assms(3) obtain a r where "e2 = a # r" by (auto simp: eol_def)
  with closing_eol [OF assms(3,4), of b] show ?case by simp
next
  case (Cons x ys)
  have "closing ((x # ys) @ e2 @ ''---'' @ e3 @ b) = None"
  proof (rule ccontr)
    assume "closing ((x # ys) @ e2 @ ''---'' @ e3 @ b) \<noteq> None"
    then obtain b' where "closing ((x # ys) @ e2 @ ''---'' @ e3 @ b) = Some b'" by auto
    from closing_inside [OF this assms(3)] Cons.prems show False by auto
  qed
  moreover from Cons.prems have "\<not> occurs (LF # ''---'') ys" and "ys \<noteq> [] \<longrightarrow> last ys \<noteq> CR"
    by (auto split: if_splits)
  ultimately show ?case using Cons.IH by simp
qed

lemma find_closing_unterminated:
  assumes "\<not> occurs (LF # ''---'') y" and "eol e2"
  shows "find_closing (y @ e2 @ ''---'') = None"
  using assms(1)
proof (induction y)
  case Nil
  from assms(2) show ?case by (auto simp: eol_def closing_def)
next
  case (Cons x ys)
  have "closing ((x # ys) @ e2 @ ''---'') = None"
  proof (rule ccontr)
    assume "closing ((x # ys) @ e2 @ ''---'') \<noteq> None"
    then obtain b' where c: "closing ((x # ys) @ e2 @ ''---'') = Some b'" by auto
    from closing_inside [OF c assms(2)] Cons.prems
    have "ys = []" "x = CR" "e2 = [LF]" by auto
    with c show False by (simp add: closing_def)
  qed
  moreover from Cons.prems have "\<not> occurs (LF # ''---'') ys" by simp
  ultimately show ?case using Cons.IH by simp
qed

lemma header_split_first:
  assumes "\<not> occurs (LF # ''---'') y" and "y \<noteq> [] \<longrightarrow> last y \<noteq> CR"
    and "eol e1" and "eol e2" and "eol e3"
  shows "header_split (''---'' @ e1 @ y @ e2 @ ''---'' @ e3 @ b) = Some (y, b)"
proof -
  let ?r = "y @ e2 @ ''---'' @ e3 @ b"
  have 1: "strip_dashes (''---'' @ e1 @ ?r) = Some (e1 @ ?r)" by (simp only: strip_dashes_iff)
  have 2: "strip_eol (e1 @ ?r) = Some ?r" using assms(3) by (auto simp only: strip_eol_iff)
  from 1 2 find_closing_first [OF assms(1,2,4,5)] show ?thesis
    by (simp add: header_split_def)
qed

lemma header_split_unterminated:
  assumes "\<not> occurs (LF # ''---'') y" and "eol e1" and "eol e2"
  shows "header_split (''---'' @ e1 @ y @ e2 @ ''---'') = None"
proof -
  let ?r = "y @ e2 @ ''---''"
  have 1: "strip_dashes (''---'' @ e1 @ ?r) = Some (e1 @ ?r)" by (simp only: strip_dashes_iff)
  have 2: "strip_eol (e1 @ ?r) = Some ?r" using assms(2) by (auto simp only: strip_eol_iff)
  from 1 2 find_closing_unterminated [OF assms(1,3)] show ?thesis
    by (simp add: header_split_def)
qed

section \<open>Metadata header: the claims\<close>

lemma parseMarkdown_split:
  "parseMarkdown L st s =
     (case header_split s of
        None \<Rightarrow> render_document L st (YMap []) s
      | Some (y, b) \<Rightarrow>
          (case parseYaml L y of
             Inr d \<Rightarrow> render_document L st (if d = YNull then YMap [] else d) b
           | Inl e \<Rightarrow> render_document L st (YMap []) b))"
  by (simp add: parseMarkdown_def parseFrontmatter_split split: option.splits sum.splits)

lemma occurs_needs_head: "c \<notin> set y \<Longrightarrow> \<not> occurs (c # p) y"
  by (induction y) auto

text \<open>
  C10. A text that starts with a delimiter line and a block, and ends with the characters
  \<^verbatim>\<open>---\<close> on a last line without a line break after it, has no header for
  \<open>parseFrontmatter\<close>, provided the block has no line break directly followed by
  \<^verbatim>\<open>---\<close> (the last line is then the only candidate for a closing delimiter): the
  metadata is empty and the
  whole text, both delimiter lines and the block included, is the body that
  \<open>parseMarkdown\<close> renders.
\<close>

theorem unterminated_header_is_body:
  assumes "eol e1" and "eol e2" and "\<not> occurs (LF # ''---'') block"
  shows "parseFrontmatter py (''---'' @ e1 @ block @ e2 @ ''---'') =
           \<lparr> data = YMap [], content = ''---'' @ e1 @ block @ e2 @ ''---'' \<rparr>
       \<and> parseMarkdown L st (''---'' @ e1 @ block @ e2 @ ''---'') =
           render_document L st (YMap []) (''---'' @ e1 @ block @ e2 @ ''---'')"
proof -
  from assms have "header_split (''---'' @ e1 @ block @ e2 @ ''---'') = None"
    by (intro header_split_unterminated)
  then show ?thesis
    by (simp only: parseFrontmatter_split parseMarkdown_split option.case simp_thms)
qed

theorem unterminated_header_is_body_witness:
  "parseFrontmatter title_yaml (''---'' @ [LF] @ ''title: X'' @ [LF] @ ''---'') =
           \<lparr> data = YMap [], content = ''---'' @ [LF] @ ''title: X'' @ [LF] @ ''---'' \<rparr>
   \<and> parseMarkdown sample_libs init_state (''---'' @ [LF] @ ''title: X'' @ [LF] @ ''---'') =
           render_document sample_libs init_state (YMap [])
             (''---'' @ [LF] @ ''title: X'' @ [LF] @ ''---'')"
proof -
  have 1: "eol [LF]" by (simp add: eol_def)
  have 2: "\<not> occurs (LF # ''---'') ''title: X''" by simp
  from unterminated_header_is_body [OF 1 1 2, of title_yaml sample_libs init_state]
  show ?thesis .
qed

text \<open>
  C3 fails as stated: when the block between the delimiter lines is not YAML, the body is
  the text after the closing delimiter line, not the entire input.
\<close>

theorem malformed_header_counterexample:
  "parseYaml sample_libs ''title: ['' = Inl YamlError
   \<and> fst (parseMarkdown sample_libs init_state
        (''---'' @ [LF] @ ''title: ['' @ [LF] @ ''---'' @ [LF] @ ''body''))
       = Inr \<lparr> html = ''<p>body</p>'' @ [LF], headings = [], frontmatter = YMap [] \<rparr>
   \<and> parseFrontmatter title_yaml
        (''---'' @ [LF] @ ''title: ['' @ [LF] @ ''---'' @ [LF] @ ''body'')
       = \<lparr> data = YMap [], content = ''body'' \<rparr>
   \<and> content (parseFrontmatter title_yaml
        (''---'' @ [LF] @ ''title: ['' @ [LF] @ ''---'' @ [LF] @ ''body''))
       \<noteq> ''---'' @ [LF] @ ''title: ['' @ [LF] @ ''---'' @ [LF] @ ''body''"
proof -
  have y: "title_yaml ''title: ['' = Inl YamlError"
    by (simp add: title_yaml_def yaml_scalar_def plain_char_def)
  have "header_split (''---'' @ [LF] @ ''title: ['' @ [LF] @ ''---'' @ [LF] @ ''body'')
      = Some (''title: ['', ''body'')"
    by (intro header_split_first) (simp_all add: eol_def)
  with y have "parseFrontmatter title_yaml
        (''---'' @ [LF] @ ''title: ['' @ [LF] @ ''---'' @ [LF] @ ''body'')
       = \<lparr> data = YMap [], content = ''body'' \<rparr>"
    by (simp add: parseFrontmatter_split)
  moreover have "parseYaml sample_libs ''title: ['' = Inl YamlError"
    using y by (simp add: sample_libs_def)
  moreover have "fst (parseMarkdown sample_libs init_state
        (''---'' @ [LF] @ ''title: ['' @ [LF] @ ''---'' @ [LF] @ ''body''))
       = Inr \<lparr> html = ''<p>body</p>'' @ [LF], headings = [], frontmatter = YMap [] \<rparr>"
    by code_simp
  ultimately show ?thesis by simp
qed

text \<open>
  C3, amended. \<open>parseFrontmatter\<close> returns a record for every input, whatever the YAML
  parser does: its metadata is empty or a value that the parser returned without
  raising. When the input has no header (it is not an opening delimiter line, a
  block, a closing delimiter line with its line break, and a rest), the metadata is empty
  and the entire input is the body. When the block of the header is not YAML (the parser
  raises), the metadata is empty and the body is the text after the closing delimiter
  line. In both cases \<open>parseMarkdown\<close> renders that body with empty metadata.
\<close>

theorem header_absent_or_malformed:
  "(data (parseFrontmatter (parseYaml L) s) = YMap []
      \<or> (\<exists>y. parseYaml L y = Inr (data (parseFrontmatter (parseYaml L) s))))
   \<and> ((\<nexists>e1 y e2 e3 b. eol e1 \<and> eol e2 \<and> eol e3 \<and> s = ''---'' @ e1 @ y @ e2 @ ''---'' @ e3 @ b) \<longrightarrow>
      parseFrontmatter (parseYaml L) s = \<lparr> data = YMap [], content = s \<rparr>
      \<and> parseMarkdown L st s = render_document L st (YMap []) s)
   \<and> (eol e1 \<and> eol e2 \<and> eol e3 \<and> \<not> occurs (LF # ''---'') y \<and> (y \<noteq> [] \<longrightarrow> last y \<noteq> CR)
        \<and> parseYaml L y = Inl err \<longrightarrow>
      parseFrontmatter (parseYaml L) (''---'' @ e1 @ y @ e2 @ ''---'' @ e3 @ b)
        = \<lparr> data = YMap [], content = b \<rparr>
      \<and> parseMarkdown L st (''---'' @ e1 @ y @ e2 @ ''---'' @ e3 @ b)
        = render_document L st (YMap []) b)"
proof (intro conjI impI)
  show "data (parseFrontmatter (parseYaml L) s) = YMap []
      \<or> (\<exists>y. parseYaml L y = Inr (data (parseFrontmatter (parseYaml L) s)))"
    by (auto simp: parseFrontmatter_split split: option.splits sum.splits)
next
  assume "\<nexists>e1 y e2 e3 b. eol e1 \<and> eol e2 \<and> eol e3 \<and> s = ''---'' @ e1 @ y @ e2 @ ''---'' @ e3 @ b"
  then have n: "header_split s = None"
    using header_split_Some_iff [of s] by blast
  then show "parseFrontmatter (parseYaml L) s = \<lparr> data = YMap [], content = s \<rparr>"
    by (simp add: parseFrontmatter_split)
  from n show "parseMarkdown L st s = render_document L st (YMap []) s"
    by (simp add: parseMarkdown_split)
next
  assume a: "eol e1 \<and> eol e2 \<and> eol e3 \<and> \<not> occurs (LF # ''---'') y \<and> (y \<noteq> [] \<longrightarrow> last y \<noteq> CR)
        \<and> parseYaml L y = Inl err"
  then have h: "header_split (''---'' @ e1 @ y @ e2 @ ''---'' @ e3 @ b) = Some (y, b)"
    by (intro header_split_first) simp_all
  from a h show "parseFrontmatter (parseYaml L) (''---'' @ e1 @ y @ e2 @ ''---'' @ e3 @ b)
        = \<lparr> data = YMap [], content = b \<rparr>"
    by (simp add: parseFrontmatter_split)
  from a h show "parseMarkdown L st (''---'' @ e1 @ y @ e2 @ ''---'' @ e3 @ b)
        = render_document L st (YMap []) b"
    by (simp add: parseMarkdown_split)
qed

theorem header_absent_or_malformed_witness:
  "parseMarkdown sample_libs init_state ''# Hello'' =
      render_document sample_libs init_state (YMap []) ''# Hello''
   \<and> parseMarkdown sample_libs init_state
        (''---'' @ [LF] @ ''title: ['' @ [LF] @ ''---'' @ [LF] @ ''body'')
        = render_document sample_libs init_state (YMap []) ''body''"
proof -
  have absent: "\<nexists>e1 y e2 e3 b. eol e1 \<and> eol e2 \<and> eol e3
      \<and> ''# Hello'' = ''---'' @ e1 @ y @ e2 @ ''---'' @ e3 @ b"
    by simp
  have malformed: "eol [LF] \<and> eol [LF] \<and> eol [LF] \<and> \<not> occurs (LF # ''---'') ''title: [''
      \<and> (''title: ['' \<noteq> [] \<longrightarrow> last ''title: ['' \<noteq> CR)
      \<and> parseYaml sample_libs ''title: ['' = Inl YamlError"
    by (simp add: eol_def sample_libs_def title_yaml_def yaml_scalar_def plain_char_def)
  from header_absent_or_malformed [where s = "''# Hello''" and L = sample_libs
      and st = init_state and ?e1.0 = "[LF]" and ?e2.0 = "[LF]" and ?e3.0 = "[LF]"
      and y = "''title: [''" and err = YamlError and b = "''body''"] absent malformed
  show ?thesis by blast
qed

lemma parseMarkdown_body:
  "fst (parseMarkdown L st doc) =
     (case fst (marked_parse L st (content (parseFrontmatter (parseYaml L) doc))) of
        Inl e \<Rightarrow> Inl e
      | Inr out \<Rightarrow>
          Inr \<lparr> html = out,
                headings = map (\<lambda>h. \<lparr> h_id = g_id h, h_text = g_text h, h_level = g_level h \<rparr>)
                  (heading_list (snd (marked_parse L st (content (parseFrontmatter (parseYaml L) doc))))),
                frontmatter = data (parseFrontmatter (parseYaml L) doc) \<rparr>)"
  by (simp add: parseMarkdown_def render_document_def Let_def split: prod.splits sum.splits)

text \<open>
  C4 fails as stated: the value of \<open>title\<close> is what the YAML parser makes of \<open>X\<close>, and
  that is not always the string \<open>X\<close>. For the line \<^verbatim>\<open>title: true\<close> it is the boolean.
\<close>

theorem title_header_counterexample:
  "fst (parseMarkdown sample_libs init_state
          (''---'' @ [LF] @ ''title: true'' @ [LF] @ ''---'' @ [LF] @ ''body''))
     = Inr \<lparr> html = ''<p>body</p>'' @ [LF], headings = [],
             frontmatter = YMap [(''title'', YBool True)] \<rparr>
   \<and> YMap [(''title'', YBool True)] \<noteq> YMap [(''title'', YStr ''true'')]"
proof
  show "fst (parseMarkdown sample_libs init_state
          (''---'' @ [LF] @ ''title: true'' @ [LF] @ ''---'' @ [LF] @ ''body''))
     = Inr \<lparr> html = ''<p>body</p>'' @ [LF], headings = [],
             frontmatter = YMap [(''title'', YBool True)] \<rparr>"
    by code_simp
  show "YMap [(''title'', YBool True)] \<noteq> YMap [(''title'', YStr ''true'')]"
    by simp
qed

text \<open>
  C4, amended. For a text made of the line \<^verbatim>\<open>---\<close>, the line \<^verbatim>\<open>title: X\<close>, the line
  \<^verbatim>\<open>---\<close> and a body, where \<open>X\<close> is the rest of its line (it has no line break):
  \<open>parseFrontmatter\<close> gives the YAML parser exactly the line \<^verbatim>\<open>title: X\<close>, and the
  metadata is what the parser returns for it (empty when it returns \<open>null\<close> or raises).
  \<open>parseMarkdown\<close> returns this metadata together with the markup and the headings that
  \<open>marked.parse\<close> gives for the body alone, the three header lines excluded, or the
  exception of that call. When the parser reads the line as the mapping of \<open>title\<close> to
  the string \<open>X\<close>, the metadata returned is that mapping.
\<close>

theorem title_header_parsed:
  assumes "LF \<notin> set X" and "CR \<notin> set X"
  shows "parseFrontmatter (parseYaml L) (''---'' @ [LF] @ ''title: '' @ X @ [LF] @ ''---'' @ [LF] @ body)
           = \<lparr> data = (case parseYaml L (''title: '' @ X) of
                          Inr d \<Rightarrow> if d = YNull then YMap [] else d
                        | Inl e \<Rightarrow> YMap []),
               content = body \<rparr>
       \<and> fst (parseMarkdown L st (''---'' @ [LF] @ ''title: '' @ X @ [LF] @ ''---'' @ [LF] @ body))
           = (case fst (marked_parse L st body) of
                Inl e \<Rightarrow> Inl e
              | Inr out \<Rightarrow>
                  Inr \<lparr> html = out,
                        headings = map (\<lambda>h. \<lparr> h_id = g_id h, h_text = g_text h, h_level = g_level h \<rparr>)
                                     (heading_list (snd (marked_parse L st body))),
                        frontmatter = (case parseYaml L (''title: '' @ X) of
                                         Inr d \<Rightarrow> if d = YNull then YMap [] else d
                                       | Inl e \<Rightarrow> YMap []) \<rparr>)
       \<and> (parseYaml L (''title: '' @ X) = Inr (YMap [(''title'', YStr X)]) \<longrightarrow>
            (\<forall>r. fst (parseMarkdown L st
                        (''---'' @ [LF] @ ''title: '' @ X @ [LF] @ ''---'' @ [LF] @ body)) = Inr r \<longrightarrow>
                 frontmatter r = YMap [(''title'', YStr X)]
                 \<and> fst (marked_parse L st body) = Inr (html r)))"
proof -
  let ?doc = "''---'' @ [LF] @ ''title: '' @ X @ [LF] @ ''---'' @ [LF] @ body"
  let ?meta = "case parseYaml L (''title: '' @ X) of
                 Inr d \<Rightarrow> if d = YNull then YMap [] else d | Inl e \<Rightarrow> YMap []"
  from assms(1) have 1: "\<not> occurs (LF # ''---'') (''title: '' @ X)"
    by (intro occurs_needs_head) simp
  from assms(2) have 2: "''title: '' @ X \<noteq> [] \<longrightarrow> last (''title: '' @ X) \<noteq> CR"
    by (cases "X = []") (auto simp: last_append dest: last_in_set)
  have 3: "eol [LF]" by (simp add: eol_def)
  have "header_split (''---'' @ [LF] @ (''title: '' @ X) @ [LF] @ ''---'' @ [LF] @ body)
      = Some (''title: '' @ X, body)"
    using 1 2 3 3 3 by (rule header_split_first)
  then have h: "header_split ?doc = Some (''title: '' @ X, body)"
    by simp
  then have fm: "parseFrontmatter (parseYaml L) ?doc = \<lparr> data = ?meta, content = body \<rparr>"
    by (simp add: parseFrontmatter_split split: sum.splits)
  have pm: "fst (parseMarkdown L st ?doc)
           = (case fst (marked_parse L st body) of
                Inl e \<Rightarrow> Inl e
              | Inr out \<Rightarrow>
                  Inr \<lparr> html = out,
                        headings = map (\<lambda>h. \<lparr> h_id = g_id h, h_text = g_text h, h_level = g_level h \<rparr>)
                                     (heading_list (snd (marked_parse L st body))),
                        frontmatter = ?meta \<rparr>)"
    by (simp only: parseMarkdown_body fm Frontmatter.select_convs)
  have sp: "parseYaml L (''title: '' @ X) = Inr (YMap [(''title'', YStr X)]) \<longrightarrow>
            (\<forall>r. fst (parseMarkdown L st ?doc) = Inr r \<longrightarrow>
                 frontmatter r = YMap [(''title'', YStr X)]
                 \<and> fst (marked_parse L st body) = Inr (html r))"
    unfolding pm by (auto split: sum.splits)
  from fm pm sp show ?thesis by (intro conjI)
qed

theorem title_header_parsed_witness:
  "fst (parseMarkdown sample_libs init_state
       (''---'' @ [LF] @ ''title: '' @ ''Quick Start'' @ [LF] @ ''---'' @ [LF] @ ''Install it.''))
     = Inr \<lparr> html = ''<p>Install it.</p>'' @ [LF], headings = [],
             frontmatter = YMap [(''title'', YStr ''Quick Start'')] \<rparr>
   \<and> fst (marked_parse sample_libs init_state ''Install it.'')
     = Inr (''<p>Install it.</p>'' @ [LF])"
proof -
  have 1: "LF \<notin> set ''Quick Start''" and 2: "CR \<notin> set ''Quick Start''" by simp_all
  have 3: "parseYaml sample_libs (''title: '' @ ''Quick Start'')
      = Inr (YMap [(''title'', YStr ''Quick Start'')])"
    by (simp add: sample_libs_def title_yaml_def yaml_scalar_def plain_char_def)
  have 4: "fst (parseMarkdown sample_libs init_state
       (''---'' @ [LF] @ ''title: '' @ ''Quick Start'' @ [LF] @ ''---'' @ [LF] @ ''Install it.''))
     = Inr \<lparr> html = ''<p>Install it.</p>'' @ [LF], headings = [],
             frontmatter = YMap [(''title'', YStr ''Quick Start'')] \<rparr>"
    by code_simp
  from title_header_parsed [OF 1 2, of sample_libs "''Install it.''" init_state]
  have "parseYaml sample_libs (''title: '' @ ''Quick Start'')
          = Inr (YMap [(''title'', YStr ''Quick Start'')]) \<longrightarrow>
        (\<forall>r. fst (parseMarkdown sample_libs init_state
                 (''---'' @ [LF] @ ''title: '' @ ''Quick Start'' @ [LF] @ ''---'' @ [LF] @ ''Install it.''))
               = Inr r \<longrightarrow>
             frontmatter r = YMap [(''title'', YStr ''Quick Start'')]
             \<and> fst (marked_parse sample_libs init_state ''Install it.'') = Inr (html r))"
    by (rule conjunct2 [THEN conjunct2])
  from this [rule_format, OF 3 4]
  have "fst (marked_parse sample_libs init_state ''Install it.'') = Inr (''<p>Install it.</p>'' @ [LF])"
    by (simp only: ParsedMarkdown.select_convs)
  with 4 show ?thesis by (intro conjI)
qed

section \<open>The highlighter is created at most once\<close>

lemma getHighlighter_fst_idem:
  "fst (getHighlighter L (snd (getHighlighter L st))) = fst (getHighlighter L st)"
  by (simp add: getHighlighter_def split: option.splits sum.splits)

lemma getHighlighter_snd_idem:
  "snd (getHighlighter L (snd (getHighlighter L st))) = snd (getHighlighter L st)"
  by (simp add: getHighlighter_def split: option.splits sum.splits)

lemma getHighlighter_headings:
  "heading_list (snd (getHighlighter L st)) = heading_list st"
  "occurrences (snd (getHighlighter L st)) = occurrences st"
  by (simp_all add: getHighlighter_def split: option.splits sum.splits)

lemma highlight_eq:
  "highlight L st code lang =
     (highlight_with (fst (getHighlighter L st)) code lang, snd (getHighlighter L st))"
  by (cases "getHighlighter L st")
     (simp add: highlight_def highlight_with_def Let_def split: sum.splits)

lemma after_refl: "after L st st"
  by (simp add: after_def)

lemma after_trans: "after L st st1 \<Longrightarrow> after L st1 st2 \<Longrightarrow> after L st st2"
  by (auto simp: after_def getHighlighter_snd_idem)

lemma after_fst: "after L st st' \<Longrightarrow> fst (getHighlighter L st') = fst (getHighlighter L st)"
  by (auto simp: after_def getHighlighter_fst_idem)

lemma after_headings:
  "after L st st' \<Longrightarrow> heading_list st' = heading_list st \<and> occurrences st' = occurrences st"
  by (auto simp: after_def getHighlighter_headings)

lemma walkTokens_pure:
  "fst (walkTokens L st tok) =
     (case tok of Code t l h \<Rightarrow> pure_walk (fst (getHighlighter L st)) tok | _ \<Rightarrow> Inr tok)
   \<and> after L st (snd (walkTokens L st tok))"
  by (cases tok)
     (simp_all add: highlight_eq language_of_def after_def split: sum.splits)

lemma walk_pure:
  "fst (walk L st tok) = pure_walk (fst (getHighlighter L st)) tok \<and> after L st (snd (walk L st tok))"
  "fst (walk_all L st toks) = pure_walk_all (fst (getHighlighter L st)) toks
     \<and> after L st (snd (walk_all L st toks))"
proof (induction L st tok and L st toks rule: walk_walk_all.induct)
  case (1 L st p cs)
  then show ?case
    by (auto simp: after_refl split: prod.splits sum.splits)
next
  case (2 L st text' lang highlighted)
  from walkTokens_pure [of L st "Code text' lang highlighted"] show ?case
    by simp
next
  case (3 L st depth text' raw)
  then show ?case by (simp add: after_refl)
next
  case (4 L st)
  then show ?case by (simp add: after_refl)
next
  case (5 L st tok toks)
  show ?case
  proof (cases "walk L st tok")
    case (Pair r st1)
    note w = this
    with 5(1) have r: "r = pure_walk (fst (getHighlighter L st)) tok" and a1: "after L st st1"
      by simp_all
    show ?thesis
    proof (cases r)
      case (Inl e)
      with r have "pure_walk (fst (getHighlighter L st)) tok = Inl e" by simp
      with w Inl a1 show ?thesis by simp
    next
      case (Inr tok')
      from 5(2) [OF w [symmetric] Inr]
      have "fst (walk_all L st1 toks) = pure_walk_all (fst (getHighlighter L st1)) toks"
        and a2: "after L st1 (snd (walk_all L st1 toks))"
        by simp_all
      with after_fst [OF a1]
      have e: "fst (walk_all L st1 toks) = pure_walk_all (fst (getHighlighter L st)) toks"
        by simp
      from after_trans [OF a1 a2] have a: "after L st (snd (walk_all L st1 toks))" .
      from Inr r have p: "pure_walk (fst (getHighlighter L st)) tok = Inr tok'" by simp
      from w Inr p e a show ?thesis
        by (cases "walk_all L st1 toks") (auto split: sum.splits)
    qed
  qed
qed

section \<open>The walk fails exactly when a code block fails\<close>

lemma pure_walk_fails_iff:
  "(\<exists>e. pure_walk G tok = Inl e) \<longleftrightarrow>
     (\<exists>(t, l) \<in> set (code_blocks tok). \<exists>e. highlight_with G t (language_of l) = Inl e)"
  "(\<exists>e. pure_walk_all G toks = Inl e) \<longleftrightarrow>
     (\<exists>(t, l) \<in> set (code_blocks_all toks). \<exists>e. highlight_with G t (language_of l) = Inl e)"
proof (induction G tok and G toks rule: pure_walk_pure_walk_all.induct)
  case (1 G text' lang highlighted)
  then show ?case by (auto split: sum.splits)
next
  case (2 G depth text' raw)
  then show ?case by simp
next
  case (3 G p cs)
  then show ?case by (auto split: sum.splits)
next
  case (4 G)
  then show ?case by simp
next
  case (5 G tok toks)
  show ?case
  proof (cases "pure_walk G tok")
    case (Inl e)
    with 5(1) show ?thesis by auto
  next
    case (Inr tok')
    with 5(1) have no: "\<not> (\<exists>(t, l) \<in> set (code_blocks tok). \<exists>e. highlight_with G t (language_of l) = Inl e)"
      by auto
    have "(\<exists>e. pure_walk_all G (tok # toks) = Inl e) \<longleftrightarrow> (\<exists>e. pure_walk_all G toks = Inl e)"
      using Inr by (auto split: sum.splits)
    also have "\<dots> \<longleftrightarrow>
      (\<exists>(t, l) \<in> set (code_blocks_all toks). \<exists>e. highlight_with G t (language_of l) = Inl e)"
      by (rule 5(2) [OF Inr])
    also have "\<dots> \<longleftrightarrow>
      (\<exists>(t, l) \<in> set (code_blocks_all (tok # toks)). \<exists>e. highlight_with G t (language_of l) = Inl e)"
      using no by (simp add: bex_Un)
    finally show ?thesis .
  qed
qed

lemma pure_walk_annotates:
  "pure_walk G tok = Inr tok' \<Longrightarrow>
     tok' = annotate (\<lambda>t l. markup (highlight_with G t (language_of l))) tok"
  "pure_walk_all G toks = Inr toks' \<Longrightarrow>
     toks' = map (annotate (\<lambda>t l. markup (highlight_with G t (language_of l)))) toks"
proof (induction G tok and G toks arbitrary: tok' and toks' rule: pure_walk_pure_walk_all.induct)
  case (1 G text' lang highlighted)
  then show ?case by (auto simp: markup_def split: sum.splits)
next
  case (2 G depth text' raw)
  then show ?case by auto
next
  case (3 G p cs)
  then show ?case by (auto split: sum.splits)
next
  case (4 G)
  then show ?case by simp
next
  case (5 G tok toks)
  then show ?case by (auto split: sum.splits)
qed

section \<open>Rendering reads and writes the heading state only\<close>

lemma render_heading_cong:
  "same_headings a b \<Longrightarrow>
     fst (render_heading L a d t r) = fst (render_heading L b d t r)
     \<and> same_headings (snd (render_heading L a d t r)) (snd (render_heading L b d t r))"
  by (simp add: render_heading_def same_headings_def Let_def split: prod.splits)


lemma render_cong:
  "same_headings a b \<Longrightarrow>
     fst (render L a tok) = fst (render L b tok)
     \<and> same_headings (snd (render L a tok)) (snd (render L b tok))"
  "same_headings a b \<Longrightarrow>
     fst (render_all L a toks) = fst (render_all L b toks)
     \<and> same_headings (snd (render_all L a toks)) (snd (render_all L b toks))"
proof (induction L a tok and L a toks arbitrary: b and b rule: render_render_all.induct)
  case (1 L st text' lang highlighted)
  then show ?case by simp
next
  case (2 L st depth text' raw)
  then show ?case by (simp add: render_heading_cong)
next
  case (3 L st p cs)
  from 3(1) [OF 3(2)] show ?case
    by (simp add: case_prod_unfold Let_def)
next
  case (4 L st)
  then show ?case by simp
next
  case (5 L st tok toks)
  from 5(1) [OF 5(3)]
  have 1: "fst (render L st tok) = fst (render L b tok)"
    and 2: "same_headings (snd (render L st tok)) (snd (render L b tok))"
    by simp_all
  from 5(2) [OF refl prod.collapse 2]
  have "fst (render_all L (snd (render L st tok)) toks) = fst (render_all L (snd (render L b tok)) toks)"
    and "same_headings (snd (render_all L (snd (render L st tok)) toks))
           (snd (render_all L (snd (render L b tok)) toks))"
    by simp_all
  with 1 show ?case
    by (simp add: case_prod_unfold Let_def)
qed


section \<open>What a parse reads of the state\<close>

lemma getHighlighter_cong:
  "highlighter a = highlighter b \<Longrightarrow> fst (getHighlighter L a) = fst (getHighlighter L b)"
  by (simp add: getHighlighter_def split: option.splits sum.splits)



lemma after_same_headings: "after L st st' \<Longrightarrow> same_headings st' st"
  by (simp add: same_headings_def after_headings)

lemma parse_tokens_eq:
  "parse_tokens L st toks =
     (case fst (walk_all L st toks) of
        Inl e \<Rightarrow> (Inl e, snd (walk_all L st toks))
      | Inr toks' \<Rightarrow>
          (Inr (fst (render_all L (snd (walk_all L st toks)) toks')),
           snd (render_all L (snd (walk_all L st toks)) toks')))"
  by (simp add: parse_tokens_def case_prod_unfold Let_def split: sum.splits)

lemma parse_tokens_fst:
  "fst (parse_tokens L st toks) =
     (case pure_walk_all (fst (getHighlighter L st)) toks of
        Inl e \<Rightarrow> Inl e
      | Inr toks' \<Rightarrow> Inr (fst (render_all L st toks')))"
proof -
  from walk_pure(2) [of L st toks]
  have w: "fst (walk_all L st toks) = pure_walk_all (fst (getHighlighter L st)) toks"
    and a: "after L st (snd (walk_all L st toks))"
    by simp_all
  from after_same_headings [OF a] render_cong(2)
  have "\<And>toks'. fst (render_all L (snd (walk_all L st toks)) toks') = fst (render_all L st toks')"
    by blast
  with w show ?thesis
    by (simp add: parse_tokens_eq split: sum.splits)
qed

lemma parse_tokens_headings:
  "same_headings (snd (parse_tokens L st toks))
     (case pure_walk_all (fst (getHighlighter L st)) toks of
        Inl e \<Rightarrow> st
      | Inr toks' \<Rightarrow> snd (render_all L st toks'))"
proof -
  from walk_pure(2) [of L st toks]
  have w: "fst (walk_all L st toks) = pure_walk_all (fst (getHighlighter L st)) toks"
    and a: "after L st (snd (walk_all L st toks))"
    by simp_all
  from after_same_headings [OF a] render_cong(2)
  have "\<And>toks'. same_headings (snd (render_all L (snd (walk_all L st toks)) toks'))
      (snd (render_all L st toks'))"
    by blast
  with w after_same_headings [OF a] show ?thesis
    by (simp add: parse_tokens_eq split: sum.splits)
qed


lemma resetHeadings_highlighter:
  "fst (getHighlighter L (resetHeadings st)) = fst (getHighlighter L st)"
  by (rule getHighlighter_cong) (simp add: resetHeadings_def)


lemma render_document_eq:
  "render_document L st meta md =
     (case fst (marked_parse L st md) of
        Inl e \<Rightarrow> (Inl e, snd (marked_parse L st md))
      | Inr out \<Rightarrow>
          (Inr \<lparr> html = out,
                 headings = map (\<lambda>h. \<lparr> h_id = g_id h, h_text = g_text h, h_level = g_level h \<rparr>)
                              (heading_list (snd (marked_parse L st md))),
                 frontmatter = meta \<rparr>,
           snd (marked_parse L st md)))"
  by (simp add: render_document_def case_prod_unfold split: sum.splits)






lemma parseMarkdown_stretches:
  "parseMarkdown L st doc =
     (let (p, st1) = parse_start L st doc;
          (w, st2) = parse_walk L st1 p
      in finish_if L st2 w)"
  by (simp add: parseMarkdown_def render_document_def marked_parse_def parse_tokens_def
      parse_start_def parse_walk_def parse_finish_def finish_if_def Let_def
      split: prod.splits sum.splits)



lemma highlight_fst:
  "fst (highlight L st code lang) = highlight_with (fst (getHighlighter L st)) code lang"
  by (simp add: highlight_eq)

lemma parseMarkdown_fst:
  "fst (parseMarkdown L st doc) =
     (case pure_walk_all (fst (getHighlighter L st)) (lexer L (body_of L doc)) of
        Inl e \<Rightarrow> Inl e
      | Inr toks' \<Rightarrow>
          Inr \<lparr> html = fst (render_all L (resetHeadings st) toks'),
                headings = map (\<lambda>h. \<lparr> h_id = g_id h, h_text = g_text h, h_level = g_level h \<rparr>)
                             (heading_list (snd (marked_parse L st (body_of L doc)))),
                frontmatter = data (parseFrontmatter (parseYaml L) doc) \<rparr>)"
  by (simp add: parseMarkdown_def Let_def render_document_eq marked_parse_def parse_tokens_fst
      resetHeadings_highlighter body_of_def split: sum.splits)

lemma render_code_plain_iff:
  "render_code t (Some h) = ''<pre><code>'' @ t @ ''</code></pre>'' \<longleftrightarrow> h = []"
  by (simp add: render_code_def)

text \<open>
  C1 fails as stated: with a highlighter that cannot be created, \<open>highlight\<close> raises for
  the code block of the document and \<open>parseMarkdown\<close> raises with it.
\<close>

theorem highlight_failure_counterexample:
  "code_blocks_all (lexer broken_shiki (''```ts'' @ [LF] @ ''let x = 1'' @ [LF] @ ''```''))
     = [(''let x = 1'', Some ''ts'')]
   \<and> fst (highlight broken_shiki init_state ''let x = 1'' ''ts'') = Inl HighlightError
   \<and> fst (parseMarkdown broken_shiki init_state (''```ts'' @ [LF] @ ''let x = 1'' @ [LF] @ ''```''))
     = Inl HighlightError"
proof (intro conjI)
  show "code_blocks_all (lexer broken_shiki (''```ts'' @ [LF] @ ''let x = 1'' @ [LF] @ ''```''))
     = [(''let x = 1'', Some ''ts'')]"
    by code_simp
  show "fst (highlight broken_shiki init_state ''let x = 1'' ''ts'') = Inl HighlightError"
    by code_simp
  show "fst (parseMarkdown broken_shiki init_state (''```ts'' @ [LF] @ ''let x = 1'' @ [LF] @ ''```''))
     = Inl HighlightError"
    by code_simp
qed

text \<open>
  C1, amended. \<open>parseMarkdown\<close> raises exactly when \<open>highlight\<close> raises for one of the code
  blocks of the document body: the exception of a single block is not caught and fails
  the parse of the whole document. When \<open>highlight\<close> returns for every block, the markup is
  the rendering of the tokens with the property \<open>highlighted\<close> of each code block set to
  what \<open>highlight\<close> returned for it, and a code block is rendered plain, as
  \<^verbatim>\<open><pre><code>\<close> around its text, only when that string is empty.
\<close>

theorem highlight_failure_fails_parse:
  "((\<exists>e. fst (parseMarkdown L st doc) = Inl e) \<longleftrightarrow>
      (\<exists>(t, l) \<in> set (code_blocks_all (lexer L (body_of L doc))).
          \<exists>e. fst (highlight L st t (language_of l)) = Inl e))
   \<and> (\<forall>r. fst (parseMarkdown L st doc) = Inr r \<longrightarrow>
        html r = fst (render_all L (resetHeadings st)
          (map (annotate (\<lambda>t l. markup (fst (highlight L st t (language_of l)))))
            (lexer L (body_of L doc)))))
   \<and> (render_code t (Some h) = ''<pre><code>'' @ t @ ''</code></pre>'' \<longleftrightarrow> h = [])"
proof (intro conjI allI impI)
  let ?G = "fst (getHighlighter L st)"
  let ?toks = "lexer L (body_of L doc)"
  have "(\<exists>e. fst (parseMarkdown L st doc) = Inl e) \<longleftrightarrow> (\<exists>e. pure_walk_all ?G ?toks = Inl e)"
    by (simp add: parseMarkdown_fst split: sum.splits)
  also have "\<dots> \<longleftrightarrow> (\<exists>(t, l) \<in> set (code_blocks_all ?toks).
      \<exists>e. highlight_with ?G t (language_of l) = Inl e)"
    by (rule pure_walk_fails_iff(2))
  finally show "(\<exists>e. fst (parseMarkdown L st doc) = Inl e) \<longleftrightarrow>
      (\<exists>(t, l) \<in> set (code_blocks_all ?toks). \<exists>e. fst (highlight L st t (language_of l)) = Inl e)"
    by (simp only: highlight_fst)
next
  fix r
  let ?G = "fst (getHighlighter L st)"
  let ?toks = "lexer L (body_of L doc)"
  assume ok: "fst (parseMarkdown L st doc) = Inr r"
  then obtain toks' where w: "pure_walk_all ?G ?toks = Inr toks'"
    and r: "html r = fst (render_all L (resetHeadings st) toks')"
    by (auto simp: parseMarkdown_fst split: sum.splits)
  from pure_walk_annotates(2) [OF w] r
  show "html r = fst (render_all L (resetHeadings st)
          (map (annotate (\<lambda>t l. markup (fst (highlight L st t (language_of l))))) ?toks))"
    by (simp only: highlight_fst)
next
  show "render_code t (Some h) = ''<pre><code>'' @ t @ ''</code></pre>'' \<longleftrightarrow> h = []"
    by (rule render_code_plain_iff)
qed

theorem highlight_failure_fails_parse_witness:
  "''<div class=\"shiki-wrapper my-6\"><pre class=\"shiki kage\"><code class=\"language-typescript\">let x = 1</code></pre></div>''
     = fst (render_all sample_libs (resetHeadings init_state)
          (map (annotate (\<lambda>t l. markup (fst (highlight sample_libs init_state t (language_of l)))))
            (lexer sample_libs
              (body_of sample_libs (''```ts'' @ [LF] @ ''let x = 1'' @ [LF] @ ''```'')))))"
proof -
  have ok: "fst (parseMarkdown sample_libs init_state (''```ts'' @ [LF] @ ''let x = 1'' @ [LF] @ ''```''))
    = Inr \<lparr> html = ''<div class=\"shiki-wrapper my-6\"><pre class=\"shiki kage\"><code class=\"language-typescript\">let x = 1</code></pre></div>'',
            headings = [], frontmatter = YMap [] \<rparr>"
    by code_simp
  from highlight_failure_fails_parse
    [of sample_libs init_state "''```ts'' @ [LF] @ ''let x = 1'' @ [LF] @ ''```''"]
  have "\<forall>r. fst (parseMarkdown sample_libs init_state (''```ts'' @ [LF] @ ''let x = 1'' @ [LF] @ ''```''))
          = Inr r \<longrightarrow>
        html r = fst (render_all sample_libs (resetHeadings init_state)
          (map (annotate (\<lambda>t l. markup (fst (highlight sample_libs init_state t (language_of l)))))
            (lexer sample_libs
              (body_of sample_libs (''```ts'' @ [LF] @ ''let x = 1'' @ [LF] @ ''```'')))))"
    by (rule conjunct2 [THEN conjunct1])
  from this [rule_format, OF ok] show ?thesis
    by (simp only: ParsedMarkdown.select_convs)
qed

section \<open>Language tags\<close>

lemma walkTokens_language:
  "walkTokens L st (Code code l hd') =
     (case highlight L st code (language_of l) of
        (Inl e, st') \<Rightarrow> (Inl e, st')
      | (Inr h, st') \<Rightarrow> (Inr (Code code l (Some h)), st'))"
  by (simp add: language_of_def)

lemma highlight_unrecognized:
  "lang \<notin> set validLangs \<Longrightarrow> highlight L st code lang = highlight L st code ''typescript''"
  by (simp add: highlight_def validLangs_def)

lemma highlight_with_unrecognized:
  "lang \<notin> set validLangs \<Longrightarrow> highlight_with G code lang = highlight_with G code ''typescript''"
  by (simp add: highlight_with_def validLangs_def)

lemma language_of_typescript: "language_of (Some ''typescript'') = ''typescript''"
  by (simp add: language_of_def)

lemma parse_tokens_code:
  "parse_tokens L st [Code code l hd'] =
     (case highlight L st code (language_of l) of
        (Inl e, st') \<Rightarrow> (Inl e, st')
      | (Inr h, st') \<Rightarrow> (Inr (render_code code (Some h)), st'))"
  by (simp add: parse_tokens_def walkTokens_language language_of_def
      split: prod.splits sum.splits)

lemma render_retag:
  "render L st (retag tok) = render L st tok"
  "render_all L st (map retag toks) = render_all L st toks"
proof (induction L st tok and L st toks rule: render_render_all.induct)
  case (1 L st text' lang highlighted)
  then show ?case by simp
next
  case (2 L st depth text' raw)
  then show ?case by simp
next
  case (3 L st p cs)
  then show ?case by simp
next
  case (4 L st)
  then show ?case by simp
next
  case (5 L st tok toks)
  from 5(2) [OF refl prod.collapse] 5(1) show ?case
    by (simp add: case_prod_unfold)
qed

lemma pure_walk_retag:
  "pure_walk G (retag tok) = map_sum id retag (pure_walk G tok)"
  "pure_walk_all G (map retag toks) = map_sum id (map retag) (pure_walk_all G toks)"
proof (induction G tok and G toks rule: pure_walk_pure_walk_all.induct)
  case (1 G text' lang highlighted)
  show ?case
  proof (cases "language_of lang \<in> set validLangs")
    case True
    then show ?thesis by (simp split: sum.splits)
  next
    case False
    from highlight_with_unrecognized [OF this] False show ?thesis
      by (simp add: language_of_typescript split: sum.splits)
  qed
next
  case (2 G depth text' raw)
  then show ?case by simp
next
  case (3 G p cs)
  then show ?case by (simp split: sum.splits)
next
  case (4 G)
  then show ?case by simp
next
  case (5 G tok toks)
  then show ?case by (simp split: sum.splits)
qed

lemma parse_tokens_retag:
  "fst (parse_tokens L st (map retag toks)) = fst (parse_tokens L st toks)"
  by (simp add: parse_tokens_fst pure_walk_retag(2) render_retag(2) split: sum.splits)

text \<open>
  C2 fails as stated: a code block tagged \<open>python\<close>, which is not in \<open>validLangs\<close>, is
  highlighted as TypeScript and rendered inside the wrapper of highlighted blocks, not as
  a plain code block.
\<close>

theorem unrecognized_language_counterexample:
  "''python'' \<notin> set validLangs
   \<and> fst (parseMarkdown sample_libs init_state
          (''```python'' @ [LF] @ ''print(1)'' @ [LF] @ ''```''))
     = Inr \<lparr> html = ''<div class=\"shiki-wrapper my-6\"><pre class=\"shiki kage\"><code class=\"language-typescript\">print(1)</code></pre></div>'',
             headings = [], frontmatter = YMap [] \<rparr>
   \<and> ''<div class=\"shiki-wrapper my-6\"><pre class=\"shiki kage\"><code class=\"language-typescript\">print(1)</code></pre></div>''
     \<noteq> ''<pre><code>print(1)</code></pre>''"
proof (intro conjI)
  show "''python'' \<notin> set validLangs" by (simp add: validLangs_def)
  show "fst (parseMarkdown sample_libs init_state
          (''```python'' @ [LF] @ ''print(1)'' @ [LF] @ ''```''))
     = Inr \<lparr> html = ''<div class=\"shiki-wrapper my-6\"><pre class=\"shiki kage\"><code class=\"language-typescript\">print(1)</code></pre></div>'',
             headings = [], frontmatter = YMap [] \<rparr>"
    by code_simp
  show "''<div class=\"shiki-wrapper my-6\"><pre class=\"shiki kage\"><code class=\"language-typescript\">print(1)</code></pre></div>''
     \<noteq> ''<pre><code>print(1)</code></pre>''"
    by simp
qed

text \<open>
  C2, amended. A code block whose language tag is not in the recognized set is
  highlighted as \<open>typescript\<close>: \<open>highlight\<close> does for the tag what it does for
  \<open>typescript\<close>, the parse of the block is the parse of the same block tagged
  \<open>typescript\<close>, and when \<open>highlight\<close> returns markup \<open>h\<close> the block is rendered by the
  \<open>code\<close> renderer from \<open>h\<close> (inside the wrapper of highlighted blocks, unless \<open>h\<close> is
  empty). For a whole token list, replacing every unrecognized tag by \<open>typescript\<close> does
  not change the result of the parse. The tag itself never makes the parse raise.
\<close>

theorem unrecognized_language_is_typescript:
  "(language_of l \<notin> set validLangs \<longrightarrow>
      highlight L st code (language_of l) = highlight L st code ''typescript''
      \<and> parse_tokens L st [Code code l None]
          = parse_tokens L st [Code code (Some ''typescript'') None]
      \<and> (\<forall>h. fst (highlight L st code ''typescript'') = Inr h \<longrightarrow>
            fst (parse_tokens L st [Code code l None]) = Inr (render_code code (Some h))))
   \<and> fst (parse_tokens L st (map retag toks)) = fst (parse_tokens L st toks)"
proof (intro conjI impI allI)
  assume u: "language_of l \<notin> set validLangs"
  then show 1: "highlight L st code (language_of l) = highlight L st code ''typescript''"
    by (rule highlight_unrecognized)
  then show "parse_tokens L st [Code code l None]
          = parse_tokens L st [Code code (Some ''typescript'') None]"
    by (simp only: parse_tokens_code language_of_typescript)
  fix h assume "fst (highlight L st code ''typescript'') = Inr h"
  with 1 show "fst (parse_tokens L st [Code code l None]) = Inr (render_code code (Some h))"
    by (cases "highlight L st code ''typescript''") (simp add: parse_tokens_code)
next
  show "fst (parse_tokens L st (map retag toks)) = fst (parse_tokens L st toks)"
    by (rule parse_tokens_retag)
qed

theorem unrecognized_language_is_typescript_witness:
  "highlight sample_libs init_state ''print(1)'' ''python''
     = highlight sample_libs init_state ''print(1)'' ''typescript''
   \<and> fst (parse_tokens sample_libs init_state [Code ''print(1)'' (Some ''python'') None])
     = Inr ''<div class=\"shiki-wrapper my-6\"><pre class=\"shiki kage\"><code class=\"language-typescript\">print(1)</code></pre></div>''"
proof -
  have u: "language_of (Some ''python'') \<notin> set validLangs"
    by (simp add: language_of_def validLangs_def)
  have l: "language_of (Some ''python'') = ''python''"
    by (simp add: language_of_def)
  have h: "fst (highlight sample_libs init_state ''print(1)'' ''typescript'')
     = Inr ''<pre class=\"shiki kage\"><code class=\"language-typescript\">print(1)</code></pre>''"
    by code_simp
  have r: "render_code ''print(1)''
       (Some ''<pre class=\"shiki kage\"><code class=\"language-typescript\">print(1)</code></pre>'')
     = ''<div class=\"shiki-wrapper my-6\"><pre class=\"shiki kage\"><code class=\"language-typescript\">print(1)</code></pre></div>''"
    by (simp add: render_code_def)
  from unrecognized_language_is_typescript
    [of "Some ''python''" sample_libs init_state "''print(1)''"] u
  have 1: "highlight sample_libs init_state ''print(1)'' (language_of (Some ''python''))
      = highlight sample_libs init_state ''print(1)'' ''typescript''"
    and 2: "\<forall>h. fst (highlight sample_libs init_state ''print(1)'' ''typescript'') = Inr h \<longrightarrow>
            fst (parse_tokens sample_libs init_state [Code ''print(1)'' (Some ''python'') None])
              = Inr (render_code ''print(1)'' (Some h))"
    by blast+
  from 1 2 [rule_format, OF h] show ?thesis
    unfolding l r by (intro conjI)
qed

section \<open>Heading identifiers\<close>

lemma next_free_fresh:
  "next_free occ s k = (r, occ') \<Longrightarrow>
     r \<notin> fst ` set occ \<and> fst ` set occ \<subseteq> fst ` set occ' \<and> r \<in> fst ` set occ'"
proof (induction occ s k arbitrary: r occ' rule: next_free.induct)
  case (1 occ s k)
  let ?n = "k + 1"
  let ?occ1 = "(s, ?n) # occ"
  let ?result = "s @ ''-'' @ string_of_nat ?n"
  show ?case
  proof (cases "map_of ?occ1 ?result")
    case None
    then have "?result \<notin> fst ` set ?occ1" by (rule map_of_eq_None_iff [THEN iffD1])
    moreover from None 1(2) have "r = ?result" and "occ' = (?result, 0) # ?occ1"
      by (auto simp: next_free.simps [of occ s k] Let_def)
    ultimately show ?thesis by auto
  next
    case (Some v)
    with 1(2) have "next_free ?occ1 s ?n = (r, occ')"
      by (simp add: next_free.simps [of occ s k] Let_def)
    from 1(1) [OF refl refl refl Some this] show ?thesis by auto
  qed
qed

lemma slugger_slug_fresh:
  "slugger_slug occ s = (r, occ') \<Longrightarrow>
     r \<notin> fst ` set occ \<and> fst ` set occ \<subseteq> fst ` set occ' \<and> r \<in> fst ` set occ'"
proof (cases "map_of occ s")
  case None
  assume "slugger_slug occ s = (r, occ')"
  with None have "r = s" and "occ' = (s, 0) # occ" by (auto simp: slugger_slug_def)
  moreover from None have "s \<notin> fst ` set occ" by (rule map_of_eq_None_iff [THEN iffD1])
  ultimately show ?thesis by auto
next
  case (Some k)
  assume "slugger_slug occ s = (r, occ')"
  with Some have "next_free occ s k = (r, occ')" by (simp add: slugger_slug_def)
  then show ?thesis by (rule next_free_fresh)
qed

lemma ids_fresh_same: "same_headings a b \<Longrightarrow> ids_fresh b \<Longrightarrow> ids_fresh a"
  by (simp add: same_headings_def ids_fresh_def)

lemma ids_fresh_reset: "ids_fresh (resetHeadings st)"
  by (simp add: ids_fresh_def resetHeadings_def)

lemma render_heading_fresh:
  assumes "ids_fresh st"
  shows "ids_fresh (snd (render_heading L st d t r))"
proof -
  obtain i occ' where s: "slugger_slug (occurrences st) (slug_text L r) = (i, occ')"
    by (cases "slugger_slug (occurrences st) (slug_text L r)")
  from slugger_slug_fresh [OF s]
  have "i \<notin> fst ` set (occurrences st)" and "fst ` set (occurrences st) \<subseteq> fst ` set occ'"
    and "i \<in> fst ` set occ'"
    by simp_all
  with assms have "distinct (map g_id (heading_list st)) \<and> i \<notin> g_id ` set (heading_list st)"
    and "g_id ` set (heading_list st) \<subseteq> fst ` set occ'"
    unfolding ids_fresh_def by blast+
  with \<open>i \<in> fst ` set occ'\<close> show ?thesis
    by (simp add: render_heading_def s ids_fresh_def)
qed

lemma render_fresh:
  "ids_fresh st \<Longrightarrow> ids_fresh (snd (render L st tok))"
  "ids_fresh st \<Longrightarrow> ids_fresh (snd (render_all L st toks))"
proof (induction L st tok and L st toks rule: render_render_all.induct)
  case (1 L st text' lang highlighted)
  then show ?case by simp
next
  case (2 L st depth text' raw)
  then show ?case by (simp add: render_heading_fresh)
next
  case (3 L st p cs)
  then show ?case by (simp add: case_prod_unfold Let_def)
next
  case (4 L st)
  then show ?case by simp
next
  case (5 L st tok toks)
  from 5(2) [OF refl prod.collapse 5(1) [OF 5(3)]] show ?case
    by (simp add: case_prod_unfold Let_def)
qed

lemma marked_parse_fresh: "ids_fresh (snd (marked_parse L st md))"
proof -
  let ?st = "resetHeadings st"
  let ?G = "fst (getHighlighter L ?st)"
  let ?toks = "lexer L md"
  have "ids_fresh (case pure_walk_all ?G ?toks of Inl e \<Rightarrow> ?st
        | Inr toks' \<Rightarrow> snd (render_all L ?st toks'))"
    by (simp add: ids_fresh_reset render_fresh(2) split: sum.splits)
  with parse_tokens_headings [of L ?st ?toks] show ?thesis
    unfolding marked_parse_def by (rule ids_fresh_same)
qed

text \<open>
  C5. The identifiers of the headings that \<open>parseMarkdown\<close> returns for a document are
  pairwise distinct, whatever the texts of the headings are, repeated texts included.
\<close>

theorem heading_ids_distinct:
  "fst (parseMarkdown L st doc) = Inr r \<Longrightarrow> distinct (map h_id (headings r))"
proof -
  assume "fst (parseMarkdown L st doc) = Inr r"
  then have "headings r = map (\<lambda>h. \<lparr> h_id = g_id h, h_text = g_text h, h_level = g_level h \<rparr>)
      (heading_list (snd (marked_parse L st (body_of L doc))))"
    by (auto simp: parseMarkdown_fst split: sum.splits)
  then have "map h_id (headings r) = map g_id (heading_list (snd (marked_parse L st (body_of L doc))))"
    by (simp add: comp_def)
  with marked_parse_fresh [of L st "body_of L doc"] show ?thesis
    by (simp add: ids_fresh_def)
qed

theorem heading_ids_distinct_witness:
  "fst (parseMarkdown sample_libs init_state
          (''## Example'' @ [LF] @ ''text'' @ [LF] @ ''## Example'' @ [LF]))
     = Inr \<lparr> html = ''<h2 id=\"example\">Example</h2>'' @ [LF] @ ''<p>text</p>'' @ [LF]
                     @ ''<h2 id=\"example-1\">Example</h2>'' @ [LF],
             headings = [\<lparr> h_id = ''example'', h_text = ''Example'', h_level = 2 \<rparr>,
                         \<lparr> h_id = ''example-1'', h_text = ''Example'', h_level = 2 \<rparr>],
             frontmatter = YMap [] \<rparr>
   \<and> distinct (map h_id [\<lparr> h_id = ''example'', h_text = ''Example'', h_level = 2 \<rparr>,
                         \<lparr> h_id = ''example-1'', h_text = ''Example'', h_level = 2 \<rparr>])"
proof -
  have ok: "fst (parseMarkdown sample_libs init_state
          (''## Example'' @ [LF] @ ''text'' @ [LF] @ ''## Example'' @ [LF]))
     = Inr \<lparr> html = ''<h2 id=\"example\">Example</h2>'' @ [LF] @ ''<p>text</p>'' @ [LF]
                     @ ''<h2 id=\"example-1\">Example</h2>'' @ [LF],
             headings = [\<lparr> h_id = ''example'', h_text = ''Example'', h_level = 2 \<rparr>,
                         \<lparr> h_id = ''example-1'', h_text = ''Example'', h_level = 2 \<rparr>],
             frontmatter = YMap [] \<rparr>"
    by code_simp
  from heading_ids_distinct [OF ok] ok show ?thesis
    by (simp only: ParsedMarkdown.select_convs simp_thms)
qed

end
